theory Spec2Isabelle
  imports Main "HOL-Library.Sublist" "HOL-Library.AList"
begin

section \<open>Python values shared by all components\<close>

text \<open>
  Python distinguishes exceptions derived from \<open>Exception\<close> (caught by
  \<open>except Exception\<close>) from those derived only from \<open>BaseException\<close>
  (\<open>KeyboardInterrupt\<close>, \<open>SystemExit\<close>, \<open>GeneratorExit\<close>, and the
  script-control exceptions of the UI framework); the latter pass through
  \<open>except Exception\<close> handlers, while \<open>finally\<close> blocks run for both.
\<close>

datatype exn = Error string | BaseOnly string

fun is_Exception :: "exn \<Rightarrow> bool" where
  "is_Exception (Error _) = True"
| "is_Exception (BaseOnly _) = False"

datatype 'a outcome = Returned 'a | Raised exn

section \<open>File classifier (components/pages/file\_upload.py, lines 27--35)\<close>

text \<open>
  A Python string is a sequence of Unicode code points. \<open>str.lower\<close> replaces every code
  point by its full lower-case mapping, one or more code points, except the capital sigma
  U+03A3: that becomes the final sigma U+03C2 when, skipping case-ignorable code points, a
  cased code point precedes it and none follows it, and the small sigma U+03C3 otherwise.
  The three tables of the Unicode database consulted for this are parameters.
\<close>

type_synonym py_str = "nat list"

record unicode_data =
  ToLowerFull :: "nat \<Rightarrow> nat list"
  IsCased :: "nat \<Rightarrow> bool"
  IsCaseIgnorable :: "nat \<Rightarrow> bool"

definition handle_capital_sigma :: "unicode_data \<Rightarrow> nat list \<Rightarrow> nat list \<Rightarrow> nat" where
  "handle_capital_sigma u seen rest_of =
     (let final_sigma =
            (case dropWhile (IsCaseIgnorable u) (rev seen) of
               [] \<Rightarrow> False
             | c # cs \<Rightarrow> IsCased u c)
            \<and> (case dropWhile (IsCaseIgnorable u) rest_of of
                 [] \<Rightarrow> True
               | c # cs \<Rightarrow> \<not> IsCased u c)
      in if final_sigma then 0x3C2 else 0x3C3)"

definition lower_ucs4 :: "unicode_data \<Rightarrow> nat list \<Rightarrow> nat \<Rightarrow> nat list \<Rightarrow> nat list" where
  "lower_ucs4 u seen c rest_of =
     (if c = 0x3A3 then [handle_capital_sigma u seen rest_of] else ToLowerFull u c)"

text \<open>The loop of \<open>str.lower\<close> over the string; \<open>seen\<close> is the part already passed.\<close>

fun do_lower :: "unicode_data \<Rightarrow> nat list \<Rightarrow> nat list \<Rightarrow> nat list" where
  "do_lower u seen [] = []"
| "do_lower u seen (c # rest_of) =
     lower_ucs4 u seen c rest_of @ do_lower u (seen @ [c]) rest_of"

definition str_lower :: "unicode_data \<Rightarrow> nat list \<Rightarrow> nat list" where
  "str_lower u s = do_lower u [] s"

text \<open>Python's \<open>sub in s\<close> on strings: \<open>sub\<close> occurs in \<open>s\<close> as a contiguous block.\<close>

fun py_in :: "'a list \<Rightarrow> 'a list \<Rightarrow> bool" where
  "py_in sub [] = (sub = [])"
| "py_in sub (c # cs) = (prefix sub (c # cs) \<or> py_in sub cs)"

text \<open>
  \<open>etl_config.required_files\<close> is a dict from record-type key to name fragment. Its
  definition lives in the \<open>config\<close> module, so it is a parameter here: the list of its
  items in iteration (insertion) order.
\<close>

type_synonym unicode_required_files = "(string \<times> py_str) list"

text \<open>
  The inner loop (lines 29--33): \<open>file_type\<close> starts as \<open>None\<close>; the first item whose
  lower-cased fragment occurs in the lower-cased file name sets it and breaks.
\<close>

fun find_file_type :: "unicode_data \<Rightarrow> unicode_required_files \<Rightarrow> py_str \<Rightarrow> string option" where
  "find_file_type u [] fname = None"
| "find_file_type u ((type_key, type_name) # rest) fname =
     (if py_in (str_lower u type_name) (str_lower u fname) then Some type_key
      else find_file_type u rest fname)"

text \<open>
  Line 35, \<open>if file_type:\<close>, tests truthiness: \<open>None\<close> and the empty string both take
  the \<open>else\<close> branch.
\<close>

fun truthy :: "string option \<Rightarrow> bool" where
  "truthy None = False"
| "truthy (Some s) = (s \<noteq> [])"

definition file_type_of :: "unicode_data \<Rightarrow> unicode_required_files \<Rightarrow> py_str \<Rightarrow> string option" where
  "file_type_of u cfg fname =
     (let file_type = find_file_type u cfg fname in if truthy file_type then file_type else None)"

text \<open>
  On strings of 7-bit characters \<open>str.lower\<close> maps \<open>A\<close>..\<open>Z\<close> to \<open>a\<close>..\<open>z\<close> and leaves
  every other character unchanged, and lines 29--35 are the functions \<open>match_type\<close> and
  \<open>classify\<close> below (lemma \<open>classify_agrees\<close>). The upload loop is modelled on such
  names.
\<close>

definition lower_char :: "char \<Rightarrow> char" where
  "lower_char c =
     (let n = (of_char c :: nat) in if 65 \<le> n \<and> n \<le> 90 then char_of (n + 32) else c)"

definition lower :: "string \<Rightarrow> string" where
  "lower s = map lower_char s"

type_synonym required_files = "(string \<times> string) list"

fun match_type :: "required_files \<Rightarrow> string \<Rightarrow> string option" where
  "match_type [] fname = None"
| "match_type ((type_key, type_name) # rest) fname =
     (if py_in (lower type_name) (lower fname) then Some type_key
      else match_type rest fname)"

definition classify :: "required_files \<Rightarrow> string \<Rightarrow> string option" where
  "classify cfg fname =
     (let file_type = match_type cfg fname in if truthy file_type then file_type else None)"

text \<open>
  Case-insensitive substring containment: some contiguous block of the file name equals
  the fragment once both are normalized by \<open>norm\<close>. On ASCII strings the normalization is
  the character-wise \<open>ascii_lower\<close>; \<open>ascii_rows u\<close> holds when the table \<open>u\<close> maps
  the ASCII code points as Unicode does, and \<open>codes\<close> gives the code points of a string
  of characters.
\<close>

definition caseless_occurs :: "(nat list \<Rightarrow> nat list) \<Rightarrow> nat list \<Rightarrow> nat list \<Rightarrow> bool" where
  "caseless_occurs norm fragment fname =
     list_ex (\<lambda>block. norm block = norm fragment) (sublists fname)"

definition ascii :: "nat list \<Rightarrow> bool" where
  "ascii s = list_all (\<lambda>c. c < 128) s"

definition ascii_lower :: "nat \<Rightarrow> nat" where
  "ascii_lower c = (if 65 \<le> c \<and> c \<le> 90 then c + 32 else c)"

definition ascii_rows :: "unicode_data \<Rightarrow> bool" where
  "ascii_rows u = (\<forall>c < 128. ToLowerFull u c = [ascii_lower c])"

definition codes :: "string \<Rightarrow> nat list" where
  "codes s = map of_char s"

text \<open>
  The rows of the Unicode tables for ASCII and for the Greek letters (every other code
  point is taken as uncased and unchanged), a configuration of ASCII fragments, and a
  Greek fragment with a file name that contains it.
\<close>

definition greek_rows :: unicode_data where
  "greek_rows =
     \<lparr>ToLowerFull = (\<lambda>c. if (65 \<le> c \<and> c \<le> 90) \<or> (0x391 \<le> c \<and> c \<le> 0x3A1)
                                \<or> (0x3A3 \<le> c \<and> c \<le> 0x3AB)
                            then [c + 32] else [c]),
      IsCased = (\<lambda>c. (65 \<le> c \<and> c \<le> 90) \<or> (97 \<le> c \<and> c \<le> 122)
                        \<or> (0x391 \<le> c \<and> c \<le> 0x3A1) \<or> (0x3A3 \<le> c \<and> c \<le> 0x3AB)
                        \<or> (0x3B1 \<le> c \<and> c \<le> 0x3CB)),
      IsCaseIgnorable = (\<lambda>c. c \<in> {0x27, 0x2E, 0x3A, 0x5E, 0x60})\<rparr>"

definition sheet_cfg :: "(string \<times> nat list) list" where
  "sheet_cfg = [(''employee'', codes ''Employee''), (''timesheet'', codes ''sheet'')]"

definition street_fragment :: "nat list" where
  "street_fragment = [0x39F, 0x394, 0x39F, 0x3A3]"

definition street_file :: "nat list" where
  "street_file = [0x39F, 0x394, 0x39F, 0x3A3, 0x391] @ codes ''.csv''"

section \<open>Upload loop (components/pages/file\_upload.py, lines 21--57)\<close>

text \<open>An uploaded file as the loop uses it: its \<open>name\<close> and the bytes of \<open>getbuffer()\<close>.\<close>

record uploaded_file =
  name :: string
  getbuffer :: string

type_synonym path = string

text \<open>The file system: the content stored under each path.\<close>

type_synonym filesystem = "path \<rightharpoonup> string"

text \<open>
  Line 37 builds \<open>app_config.upload_folder / f"{file_type}_{uploaded_file.name}"\<close>.
  \<open>app_config\<close> belongs to the \<open>config\<close> module, so the join with the upload folder is
  the parameter \<open>upload_folder\<close>, applied to the formatted file name.
\<close>

definition save_path :: "(string \<Rightarrow> path) \<Rightarrow> string \<Rightarrow> uploaded_file \<Rightarrow> path" where
  "save_path upload_folder file_type uploaded = upload_folder (file_type @ ''_'' @ name uploaded)"

text \<open>
  Lines 38--39, \<open>with open(save_path, "wb") as f: f.write(...)\<close>, depend on the operating
  system: the write either completes, or raises \<open>OSError\<close> leaving the path untouched
  (\<open>open\<close> failed) or holding whatever was written before the failure.
\<close>

datatype write_result = Written | WriteFailed string "string option"

type_synonym os_write = "filesystem \<Rightarrow> path \<Rightarrow> string \<Rightarrow> write_result"

definition write_file :: "os_write \<Rightarrow> filesystem \<Rightarrow> path \<Rightarrow> string \<Rightarrow> unit outcome \<times> filesystem" where
  "write_file os files p content =
     (case os files p content of
        Written \<Rightarrow> (Returned (), files(p \<mapsto> content))
      | WriteFailed msg left \<Rightarrow>
          (Raised (Error msg), case left of None \<Rightarrow> files | Some part \<Rightarrow> files(p \<mapsto> part)))"

text \<open>
  The loop's variables. \<open>files_dict\<close> is a Python dict: an association list in insertion
  order, where assigning to a present key replaces its value in place
  (\<^const>\<open>AList.update\<close>).
\<close>

record upload_state =
  files_dict :: "(string \<times> path) list"
  unrecognized_files :: "string list"
  disk :: filesystem

definition initial_upload_state :: "filesystem \<Rightarrow> upload_state" where
  "initial_upload_state files = \<lparr>files_dict = [], unrecognized_files = [], disk = files\<rparr>"

text \<open>
  Lines 27--42. An \<open>OSError\<close> from the write is not handled inside
  \<open>render_file_upload\<close>: it ends the loop and propagates.
\<close>

fun upload_loop ::
  "os_write \<Rightarrow> (string \<Rightarrow> path) \<Rightarrow> required_files \<Rightarrow> uploaded_file list \<Rightarrow> upload_state
     \<Rightarrow> unit outcome \<times> upload_state" where
  "upload_loop os upload_folder cfg [] st = (Returned (), st)"
| "upload_loop os upload_folder cfg (uploaded # rest) st =
     (case classify cfg (name uploaded) of
        Some file_type \<Rightarrow>
          (let p = save_path upload_folder file_type uploaded in
           case write_file os (disk st) p (getbuffer uploaded) of
             (Returned _, files) \<Rightarrow>
               upload_loop os upload_folder cfg rest
                 (st\<lparr>disk := files, files_dict := AList.update file_type p (files_dict st)\<rparr>)
           | (Raised e, files) \<Rightarrow> (Raised e, st\<lparr>disk := files\<rparr>))
      | None \<Rightarrow>
          upload_loop os upload_folder cfg rest
            (st\<lparr>unrecognized_files := unrecognized_files st @ [name uploaded]\<rparr>))"

text \<open>
  Lines 45--49: the status message. \<open>Warning n names\<close> stands for the \<open>st.warning\<close> text
  built from \<open>len(files_dict)\<close> and the joined unrecognized names, \<open>Success n\<close> for the
  \<open>st.success\<close> text. No message is shown when \<open>files_dict\<close> is empty.
\<close>

datatype ui_message = Warning nat "string list" | Success nat

definition status_message :: "upload_state \<Rightarrow> ui_message option" where
  "status_message st =
     (if files_dict st \<noteq> [] then
        Some (if unrecognized_files st \<noteq> []
              then Warning (length (files_dict st)) (unrecognized_files st)
              else Success (length (files_dict st)))
      else None)"

text \<open>
  Lines 52--57: \<open>pipeline.process_files(files_dict)\<close> is called when \<open>files_dict\<close> is
  non-empty and the button is pressed; \<open>process_files_argument\<close> is the mapping it is
  handed. \<open>ETLPipeline\<close> itself belongs to the \<open>etl\<close> module.
\<close>

definition process_files_argument :: "bool \<Rightarrow> upload_state \<Rightarrow> (string \<times> path) list option" where
  "process_files_argument button st =
     (if files_dict st \<noteq> [] \<and> button then Some (files_dict st) else None)"

text \<open>The upload part of \<open>render_file_upload\<close>, from \<open>if uploaded_files:\<close> on.\<close>

record upload_page =
  shown :: "ui_message option"
  handed_to_pipeline :: "(string \<times> path) list option"

definition render_upload ::
  "os_write \<Rightarrow> (string \<Rightarrow> path) \<Rightarrow> required_files \<Rightarrow> uploaded_file list \<Rightarrow> bool \<Rightarrow> filesystem
     \<Rightarrow> upload_page outcome \<times> filesystem" where
  "render_upload os upload_folder cfg uploaded_files button files =
     (if uploaded_files \<noteq> [] then
        (case upload_loop os upload_folder cfg uploaded_files (initial_upload_state files) of
           (Returned _, st) \<Rightarrow>
             (Returned \<lparr>shown = status_message st,
                        handed_to_pipeline = process_files_argument button st\<rparr>, disk st)
         | (Raised e, st) \<Rightarrow> (Raised e, disk st))
      else (Returned \<lparr>shown = None, handed_to_pipeline = None\<rparr>, files))"


text \<open>
  Notions used to state what the loop computes: the recognized and the unrecognized files
  of a batch, the dict entry a recognized file is stored under, and whether a file is
  saved at a given path.
\<close>

definition recognized :: "required_files \<Rightarrow> uploaded_file list \<Rightarrow> uploaded_file list" where
  "recognized cfg files = filter (\<lambda>f. classify cfg (name f) \<noteq> None) files"

definition unrecognized :: "required_files \<Rightarrow> uploaded_file list \<Rightarrow> uploaded_file list" where
  "unrecognized cfg files = filter (\<lambda>f. classify cfg (name f) = None) files"

definition entry_of :: "(string \<Rightarrow> path) \<Rightarrow> required_files \<Rightarrow> uploaded_file \<Rightarrow> string \<times> path" where
  "entry_of uf cfg f =
     (case classify cfg (name f) of Some k \<Rightarrow> (k, save_path uf k f) | None \<Rightarrow> ([], []))"

definition saved_at :: "(string \<Rightarrow> path) \<Rightarrow> required_files \<Rightarrow> path \<Rightarrow> uploaded_file \<Rightarrow> bool" where
  "saved_at uf cfg p f =
     (case classify cfg (name f) of None \<Rightarrow> False | Some k \<Rightarrow> save_path uf k f = p)"

text \<open>A concrete configuration, upload folder, operating system and two batches.\<close>

definition always_written :: os_write where
  "always_written files p content = Written"

definition demo_cfg :: required_files where
  "demo_cfg =
     [(''employee'', ''employee''), (''timesheet'', ''timesheet''), (''project'', ''project'')]"

definition demo_folder :: "string \<Rightarrow> path" where
  "demo_folder s = ''uploads/'' @ s"

definition distinct_batch :: "uploaded_file list" where
  "distinct_batch =
     [\<lparr>name = ''Employee_jan.csv'', getbuffer = ''a''\<rparr>,
      \<lparr>name = ''project.csv'', getbuffer = ''b''\<rparr>,
      \<lparr>name = ''timesheet.csv'', getbuffer = ''c''\<rparr>,
      \<lparr>name = ''notes.csv'', getbuffer = ''d''\<rparr>]"

definition clashing_batch :: "uploaded_file list" where
  "clashing_batch =
     [\<lparr>name = ''employee_jan.csv'', getbuffer = ''a''\<rparr>,
      \<lparr>name = ''Employee_feb.csv'', getbuffer = ''b''\<rparr>,
      \<lparr>name = ''timesheet.csv'', getbuffer = ''c''\<rparr>,
      \<lparr>name = ''notes.csv'', getbuffer = ''d''\<rparr>]"

section \<open>Connection pool (components/data/database.py)\<close>

text \<open>
  The pool, its connections and their cursors belong to the database driver. What the
  code does with them is recorded as a trace of events, in the order they happen;
  connections are named by numbers, and a cursor by the connection it was opened on.
\<close>

datatype db_call = PutConn nat | Cursor nat | Commit nat | Rollback nat | CloseCursor nat

datatype db_event =
    GotConn nat
  | GetConnFailed string
  | Call db_call "string option"
  | Logged string

type_synonym trace = "db_event list"

text \<open>
  The driver decides whether a call succeeds. \<open>getconn\<close> yields the error message or the
  connection handed out; \<open>raises\<close> yields the error message when the call fails. Driver
  errors derive from \<open>Exception\<close>.
\<close>

record db_env =
  getconn :: "trace \<Rightarrow> string + nat"
  raises :: "trace \<Rightarrow> db_call \<Rightarrow> string option"

definition call :: "db_env \<Rightarrow> db_call \<Rightarrow> trace \<Rightarrow> unit outcome \<times> trace" where
  "call env c t =
     (case raises env t c of
        None \<Rightarrow> (Returned (), t @ [Call c None])
      | Some msg \<Rightarrow> (Raised (Error msg), t @ [Call c (Some msg)]))"

text \<open>
  A \<open>DatabasePool\<close> object: its attribute \<open>_pool\<close>, \<open>None\<close> (the class attribute) until
  \<open>_initialize_pool\<close> has stored a driver pool in it.
\<close>

record database_pool =
  pool :: "nat option"

text \<open>
  \<open>self._pool.getconn()\<close> (line 45): an \<open>AttributeError\<close> when \<open>_pool\<close> is \<open>None\<close>,
  otherwise the driver's answer.
\<close>

definition acquire :: "db_env \<Rightarrow> database_pool \<Rightarrow> trace \<Rightarrow> string + nat" where
  "acquire env self t =
     (case pool self of None \<Rightarrow> Inl ''AttributeError'' | Some p \<Rightarrow> getconn env t)"

text \<open>
  \<open>get_connection\<close> (lines 41--52), a generator-based context manager applied to the body
  of its \<open>with\<close> statement. The body gets the connection and the trace so far. An exception
  raised by \<open>getconn\<close> or by the body is logged and re-raised when it derives from
  \<open>Exception\<close>; the \<open>finally\<close> block calls \<open>putconn\<close> when a connection was obtained
  (a driver connection is truthy).
\<close>

definition get_connection ::
  "db_env \<Rightarrow> database_pool \<Rightarrow> (nat \<Rightarrow> trace \<Rightarrow> 'a outcome \<times> trace) \<Rightarrow> trace \<Rightarrow> 'a outcome \<times> trace" where
  "get_connection env self body t =
     (case acquire env self t of
        Inl msg \<Rightarrow>
          (Raised (Error msg),
           t @ [GetConnFailed msg, Logged ''Error getting connection from pool''])
      | Inr conn \<Rightarrow>
          (let (r, t1) = body conn (t @ [GotConn conn]);
               t2 = (case r of
                       Raised e \<Rightarrow>
                         if is_Exception e
                         then t1 @ [Logged ''Error getting connection from pool''] else t1
                     | Returned v \<Rightarrow> t1)
           in case call env (PutConn conn) t2 of
                (Returned u, t3) \<Rightarrow> (r, t3)
              | (Raised e, t3) \<Rightarrow> (Raised e, t3)))"

text \<open>The handler of \<open>get_cursor\<close> (lines 62--65): roll back, log, re-raise.\<close>

definition rollback_and_reraise :: "db_env \<Rightarrow> nat \<Rightarrow> exn \<Rightarrow> trace \<Rightarrow> 'a outcome \<times> trace" where
  "rollback_and_reraise env conn e t =
     (case call env (Rollback conn) t of
        (Returned u, t1) \<Rightarrow> (Raised e, t1 @ [Logged ''Database operation failed''])
      | (Raised e', t1) \<Rightarrow> (Raised e', t1))"

text \<open>
  \<open>get_cursor\<close> (lines 54--67). \<open>conn.cursor()\<close> is outside the \<open>try\<close>. Inside it, the body
  runs and then \<open>conn.commit()\<close>; \<open>except Exception\<close> handles an exception of either;
  \<open>finally\<close> closes the cursor.
\<close>

definition get_cursor ::
  "db_env \<Rightarrow> database_pool \<Rightarrow> (nat \<Rightarrow> trace \<Rightarrow> 'a outcome \<times> trace) \<Rightarrow> trace \<Rightarrow> 'a outcome \<times> trace" where
  "get_cursor env self body =
     get_connection env self (\<lambda>conn t.
       case call env (Cursor conn) t of
         (Raised e, t1) \<Rightarrow> (Raised e, t1)
       | (Returned u, t1) \<Rightarrow>
           (let (r, t2) = body conn t1;
                (r', t3) =
                  (case r of
                     Returned v \<Rightarrow>
                       (case call env (Commit conn) t2 of
                          (Returned u, t3) \<Rightarrow> (Returned v, t3)
                        | (Raised e, t3) \<Rightarrow>
                            if is_Exception e then rollback_and_reraise env conn e t3
                            else (Raised e, t3))
                   | Raised e \<Rightarrow>
                       if is_Exception e then rollback_and_reraise env conn e t2
                       else (Raised e, t2))
            in case call env (CloseCursor conn) t3 of
                 (Returned u, t4) \<Rightarrow> (r', t4)
               | (Raised e, t4) \<Rightarrow> (Raised e, t4)))"

text \<open>Reading a trace: was a call made, did a call fail, is an event a log line.\<close>

fun is_call :: "db_call \<Rightarrow> db_event \<Rightarrow> bool" where
  "is_call c (Call c' res) = (c' = c)"
| "is_call c ev = False"

definition attempted :: "db_call \<Rightarrow> trace \<Rightarrow> bool" where
  "attempted c t = list_ex (is_call c) t"

fun is_failure :: "db_event \<Rightarrow> bool" where
  "is_failure (Call c (Some msg)) = True"
| "is_failure (GetConnFailed msg) = True"
| "is_failure ev = False"

fun is_log :: "db_event \<Rightarrow> bool" where
  "is_log (Logged s) = True"
| "is_log ev = False"

text \<open>A driver on which every call succeeds and \<open>getconn\<close> hands out connection 7.\<close>

definition quiet_driver :: db_env where
  "quiet_driver = \<lparr>getconn = (\<lambda>t. Inr 7), raises = (\<lambda>t c. None)\<rparr>"

definition ready_pool :: database_pool where
  "ready_pool = \<lparr>pool = Some 0\<rparr>"

text \<open>Two bodies that raise at once: one an \<open>Exception\<close>, one a \<open>KeyboardInterrupt\<close>.\<close>

definition failing_body :: "nat \<Rightarrow> trace \<Rightarrow> unit outcome \<times> trace" where
  "failing_body conn t = (Raised (Error ''ValueError''), t)"

definition interrupted_body :: "nat \<Rightarrow> trace \<Rightarrow> unit outcome \<times> trace" where
  "interrupted_body conn t = (Raised (BaseOnly ''KeyboardInterrupt''), t)"

text \<open>
  The class \<open>DatabasePool\<close> and the objects made from it: the class attribute
  \<open>_instance\<close> (a reference, or \<open>None\<close>), the objects by reference, the next free
  reference, and how many times the driver's \<open>SimpleConnectionPool\<close> has been
  constructed.
\<close>

record pool_class =
  cls_instance :: "nat option"
  objects :: "nat \<rightharpoonup> database_pool"
  next_ref :: nat
  pools_created :: nat

text \<open>The class as the module defines it (lines 14--15), before any construction.\<close>

definition class_defined :: pool_class where
  "class_defined = \<lparr>cls_instance = None, objects = Map.empty, next_ref = 0, pools_created = 0\<rparr>"

text \<open>
  \<open>_initialize_pool\<close> (lines 23--39). \<open>connect n\<close> tells whether the driver's
  \<open>SimpleConnectionPool(...)\<close> raises when it is constructed for the \<open>n\<close>-th time (counting
  from 0); the pool it returns is named \<open>n\<close>. A failure is logged and re-raised, and
  \<open>_pool\<close> keeps the class default.
\<close>

definition initialize_pool ::
  "(nat \<Rightarrow> string option) \<Rightarrow> nat \<Rightarrow> pool_class \<Rightarrow> unit outcome \<times> pool_class" where
  "initialize_pool connect self c =
     (let n = pools_created c; c1 = c\<lparr>pools_created := Suc n\<rparr> in
      case connect n of
        None \<Rightarrow> (Returned (), c1\<lparr>objects := (objects c1)(self \<mapsto> \<lparr>pool = Some n\<rparr>)\<rparr>)
      | Some msg \<Rightarrow> (Raised (Error msg), c1))"

text \<open>
  \<open>__new__\<close> (lines 17--21): \<open>_instance\<close> is assigned the new object before
  \<open>_initialize_pool\<close> runs on it.
\<close>

definition DatabasePool_new ::
  "(nat \<Rightarrow> string option) \<Rightarrow> pool_class \<Rightarrow> nat outcome \<times> pool_class" where
  "DatabasePool_new connect c =
     (case cls_instance c of
        None \<Rightarrow>
          (let self = next_ref c;
               c1 = c\<lparr>cls_instance := Some self,
                       objects := (objects c)(self \<mapsto> \<lparr>pool = None\<rparr>),
                       next_ref := Suc self\<rparr>
           in case initialize_pool connect self c1 of
                (Returned u, c2) \<Rightarrow> (Returned self, c2)
              | (Raised e, c2) \<Rightarrow> (Raised e, c2))
      | Some self \<Rightarrow> (Returned self, c))"

text \<open>\<open>n\<close> constructions \<open>DatabasePool()\<close> one after the other, with their outcomes.\<close>

fun constructions ::
  "(nat \<Rightarrow> string option) \<Rightarrow> nat \<Rightarrow> pool_class \<Rightarrow> nat outcome list \<times> pool_class" where
  "constructions connect 0 c = ([], c)"
| "constructions connect (Suc n) c =
     (let (r, c1) = DatabasePool_new connect c;
          (rs, c2) = constructions connect n c1
      in (r # rs, c2))"

section \<open>Activity logger (components/utils/activity\_logger.py)\<close>

text \<open>
  A value of a \<open>details\<close> dict: an integer, a string, or an object that \<open>json.dumps\<close>
  cannot serialize. The JSON text that \<open>json.dumps\<close> produces is represented by the
  items of the dict it encodes.
\<close>

datatype py_value = PyInt int | PyStr string | PyObject

type_synonym py_dict = "(string \<times> py_value) list"

definition json_dumps :: "py_dict \<Rightarrow> py_dict outcome" where
  "json_dumps d =
     (if list_ex (\<lambda>(k, v). v = PyObject) d then Raised (Error ''TypeError'') else Returned d)"

text \<open>A row of the table \<open>system_logs\<close> (class \<open>SystemLog\<close>, lines 24--33).\<close>

record system_log =
  event_type :: string
  user :: "string option"
  description :: string
  details :: "py_dict option"
  timestamp :: nat

text \<open>
  An \<open>ActivityLogger\<close> object: its attributes \<open>engine\<close> and \<open>Session\<close>, both \<open>None\<close> when
  \<open>__init__\<close> failed.
\<close>

record activity_logger =
  engine :: "nat option"
  Session :: "nat option"

text \<open>
  The object-relational mapper decides whether its calls succeed: creating an engine from
  the environment's settings, binding a session factory to an engine, and, while logging,
  opening a session, adding the entry, committing and closing. Its errors derive from
  \<open>Exception\<close>.
\<close>

datatype orm_call = OpenSession | AddEntry | CommitSession | CloseSession

record orm_env =
  create_engine :: "string + nat"
  sessionmaker :: "nat \<Rightarrow> string + nat"
  orm_raises :: "orm_call \<Rightarrow> system_log list \<Rightarrow> string option"

text \<open>
  \<open>__init__\<close> (lines 42--64). \<open>create_logs_table\<close> handles its own exceptions, so only
  the engine and the session factory can make \<open>__init__\<close> take its \<open>except\<close> branch.
\<close>

definition ActivityLogger_init :: "orm_env \<Rightarrow> nat option \<Rightarrow> activity_logger" where
  "ActivityLogger_init env engine_arg =
     (case (case engine_arg of None \<Rightarrow> create_engine env | Some e \<Rightarrow> Inr e) of
        Inl msg \<Rightarrow> \<lparr>engine = None, Session = None\<rparr>
      | Inr e \<Rightarrow>
          (case sessionmaker env e of
             Inl msg \<Rightarrow> \<lparr>engine = None, Session = None\<rparr>
           | Inr s \<Rightarrow> \<lparr>engine = Some e, Session = Some s\<rparr>))"

text \<open>
  The body of the \<open>try\<close> in \<open>log_event\<close> (lines 77--101), acting on the rows of
  \<open>system_logs\<close>. \<open>if details:\<close> skips \<open>None\<close> and the empty dict. The \<open>with\<close> statement
  closes the session whether or not its body raised.
\<close>

definition log_event_try ::
  "orm_env \<Rightarrow> activity_logger \<Rightarrow> string \<Rightarrow> string \<Rightarrow> string option \<Rightarrow> py_dict option \<Rightarrow> nat
     \<Rightarrow> system_log list \<Rightarrow> bool outcome \<times> system_log list" where
  "log_event_try env self ev descr usr dets now rows =
     (case Session self of
        None \<Rightarrow> (Returned False, rows)
      | Some factory \<Rightarrow>
          (case (case dets of
                   None \<Rightarrow> Returned None
                 | Some d \<Rightarrow> if d = [] then Returned None
                            else (case json_dumps d of
                                    Returned s \<Rightarrow> Returned (Some s)
                                  | Raised e \<Rightarrow> Raised e)) of
             Raised e \<Rightarrow> (Raised e, rows)
           | Returned details_str \<Rightarrow>
               (let log_entry = \<lparr>event_type = ev, user = usr, description = descr,
                                 details = details_str, timestamp = now\<rparr>
                in case orm_raises env OpenSession rows of
                     Some msg \<Rightarrow> (Raised (Error msg), rows)
                   | None \<Rightarrow>
                       (let (r, rows1) =
                              (case orm_raises env AddEntry rows of
                                 Some msg \<Rightarrow> (Raised (Error msg), rows)
                               | None \<Rightarrow>
                                   (case orm_raises env CommitSession rows of
                                      Some msg \<Rightarrow> (Raised (Error msg), rows)
                                    | None \<Rightarrow> (Returned (), rows @ [log_entry])))
                        in case orm_raises env CloseSession rows1 of
                             Some msg \<Rightarrow> (Raised (Error msg), rows1)
                           | None \<Rightarrow>
                               (case r of
                                  Raised e \<Rightarrow> (Raised e, rows1)
                                | Returned u \<Rightarrow> (Returned True, rows1))))))"

text \<open>\<open>log_event\<close> (lines 73--105): \<open>except Exception\<close> turns a failure into \<open>False\<close>.\<close>

definition log_event ::
  "orm_env \<Rightarrow> activity_logger \<Rightarrow> string \<Rightarrow> string \<Rightarrow> string option \<Rightarrow> py_dict option \<Rightarrow> nat
     \<Rightarrow> system_log list \<Rightarrow> bool outcome \<times> system_log list" where
  "log_event env self ev descr usr dets now rows =
     (case log_event_try env self ev descr usr dets now rows of
        (Raised e, rows') \<Rightarrow> if is_Exception e then (Returned False, rows') else (Raised e, rows')
      | (Returned b, rows') \<Rightarrow> (Returned b, rows'))"

text \<open>\<open>log_file_upload\<close> (lines 107--111) and \<open>log_file_processing\<close> (lines 113--123).\<close>

definition log_file_upload ::
  "orm_env \<Rightarrow> activity_logger \<Rightarrow> string \<Rightarrow> string \<Rightarrow> string option \<Rightarrow> string \<Rightarrow> py_dict option
     \<Rightarrow> nat \<Rightarrow> system_log list \<Rightarrow> bool outcome \<times> system_log list" where
  "log_file_upload env self filename file_type usr status dets now rows =
     log_event env self ''FILE_UPLOAD''
       (''File upload: '' @ filename @ '' ('' @ file_type @ '') - '' @ status) usr dets now rows"

definition log_file_processing ::
  "orm_env \<Rightarrow> activity_logger \<Rightarrow> string \<Rightarrow> int \<Rightarrow> int \<Rightarrow> int \<Rightarrow> string option
     \<Rightarrow> nat \<Rightarrow> system_log list \<Rightarrow> bool outcome \<times> system_log list" where
  "log_file_processing env self filename records_processed records_success records_failed usr now rows =
     log_event env self ''FILE_PROCESSING'' (''File processed: '' @ filename) usr
       (Some [(''records_processed'', PyInt records_processed),
              (''records_success'', PyInt records_success),
              (''records_failed'', PyInt records_failed)]) now rows"

text \<open>
  The module's global \<open>_activity_logger\<close> (line 237) and \<open>get_logger\<close> (lines 239--244),
  with the \<open>ActivityLogger\<close> objects by reference.
\<close>

record logger_module =
  activity_logger_global :: "nat option"
  loggers :: "nat \<rightharpoonup> activity_logger"
  next_logger :: nat

definition module_loaded :: logger_module where
  "module_loaded = \<lparr>activity_logger_global = None, loggers = Map.empty, next_logger = 0\<rparr>"

definition get_logger :: "orm_env \<Rightarrow> nat option \<Rightarrow> logger_module \<Rightarrow> nat \<times> logger_module" where
  "get_logger env engine_arg m =
     (case activity_logger_global m of
        None \<Rightarrow>
          (let ref = next_logger m in
           (ref, m\<lparr>activity_logger_global := Some ref,
                   loggers := (loggers m)(ref \<mapsto> ActivityLogger_init env engine_arg),
                   next_logger := Suc ref\<rparr>))
      | Some ref \<Rightarrow> (ref, m))"

text \<open>Calls of \<open>get_logger\<close> one after the other, each with its own engine argument.\<close>

fun get_logger_calls ::
  "orm_env \<Rightarrow> nat option list \<Rightarrow> logger_module \<Rightarrow> nat list \<times> logger_module" where
  "get_logger_calls env [] m = ([], m)"
| "get_logger_calls env (engine_arg # rest) m =
     (let (r, m1) = get_logger env engine_arg m;
          (rs, m2) = get_logger_calls env rest m1
      in (r # rs, m2))"

text \<open>An object-relational mapper on which every call succeeds.\<close>

definition quiet_orm :: orm_env where
  "quiet_orm = \<lparr>create_engine = Inr 1, sessionmaker = (\<lambda>e. Inr e), orm_raises = (\<lambda>c rows. None)\<rparr>"

text \<open>
  The entry \<open>log_event\<close> builds from its arguments, and whether \<open>json.dumps\<close> accepts the
  details.
\<close>

definition log_entry_of ::
  "string \<Rightarrow> string \<Rightarrow> string option \<Rightarrow> py_dict option \<Rightarrow> nat \<Rightarrow> system_log" where
  "log_entry_of ev descr usr dets now =
     \<lparr>event_type = ev, user = usr, description = descr,
      details = (case dets of None \<Rightarrow> None | Some d \<Rightarrow> if d = [] then None else Some d),
      timestamp = now\<rparr>"

definition serializable :: "py_dict option \<Rightarrow> bool" where
  "serializable dets =
     (case dets of None \<Rightarrow> True | Some d \<Rightarrow> \<not> list_ex (\<lambda>(k, v). v = PyObject) d)"

text \<open>A logger whose \<open>__init__\<close> succeeded and one whose \<open>__init__\<close> failed.\<close>

definition ready_logger :: activity_logger where
  "ready_logger = \<lparr>engine = Some 1, Session = Some 1\<rparr>"

definition broken_logger :: activity_logger where
  "broken_logger = \<lparr>engine = None, Session = None\<rparr>"

section \<open>Run ledger (spec sections 3 and 4.2--4.6)\<close>

text \<open>
  Modelled from the spec: the code that writes the rows of \<open>csv_upload_log\<close> (the
  pipeline of the \<open>etl\<close> module) is not among the sources; \<open>file_upload.py\<close> only
  reads the table. What follows is the spec's Run Ledger. A row of a file is either loaded,
  or rejected by validation with its failing fields, or skipped by the loader (4.3, 4.4,
  4.6). A file is malformed (4.2: recorded as failed with zero processed records), or its
  rows are processed one by one (4.6), or its transaction fails as a whole (4.4: recorded
  as failed with \<open>records_success = 0\<close> and \<open>records_failed = records_processed\<close>).
\<close>

datatype row_result = Loaded | Rejected nat | Skipped

datatype file_result = Malformed | Processed "row_result list" | TransactionFailed "row_result list"

datatype upload_status = StatusSuccess | StatusPartial | StatusFailed

record upload_log =
  upload_id :: nat
  file_type :: string
  upload_timestamp :: nat
  status :: upload_status
  records_processed :: nat
  records_success :: nat
  records_failed :: nat

text \<open>
  Modelled from the spec: the one row the ledger writes for a file (4.5). A processed
  file counts every row it read, its loaded rows as successes and all others as failures;
  it has status success when no row failed (4.6) and partial otherwise.
\<close>

fun ledger_row :: "nat \<Rightarrow> string \<Rightarrow> nat \<Rightarrow> file_result \<Rightarrow> upload_log" where
  "ledger_row uid ftype now Malformed =
     \<lparr>upload_id = uid, file_type = ftype, upload_timestamp = now, status = StatusFailed,
      records_processed = 0, records_success = 0, records_failed = 0\<rparr>"
| "ledger_row uid ftype now (Processed rows) =
     \<lparr>upload_id = uid, file_type = ftype, upload_timestamp = now,
      status = (if filter (\<lambda>r. r \<noteq> Loaded) rows = [] then StatusSuccess else StatusPartial),
      records_processed = length rows,
      records_success = length (filter (\<lambda>r. r = Loaded) rows),
      records_failed = length (filter (\<lambda>r. r \<noteq> Loaded) rows)\<rparr>"
| "ledger_row uid ftype now (TransactionFailed rows) =
     \<lparr>upload_id = uid, file_type = ftype, upload_timestamp = now, status = StatusFailed,
      records_processed = length rows, records_success = 0, records_failed = length rows\<rparr>"

text \<open>
  Modelled from the spec: the ledger is append-only (section 3); a batch adds one row per
  submitted file, in order, each under a fresh upload identifier and stamped by the clock.
\<close>

fun write_ledger ::
  "(nat \<Rightarrow> nat) \<Rightarrow> (string \<times> file_result) list \<Rightarrow> upload_log list \<Rightarrow> upload_log list" where
  "write_ledger clock [] ledger = ledger"
| "write_ledger clock ((ftype, res) # rest) ledger =
     write_ledger clock rest
       (ledger @ [ledger_row (length ledger) ftype (clock (length ledger)) res])"

definition counts_add_up :: "upload_log \<Rightarrow> bool" where
  "counts_add_up row = (records_processed row = records_success row + records_failed row)"

section \<open>Facts about the classifier\<close>

lemma py_in_sublist: "py_in sub s = sublist sub s"
  by (induction s) (simp_all add: sublist_Cons_right)

lemma find_file_type_find:
  "find_file_type u cfg fname =
     map_option fst
       (find (\<lambda>(k, fragment). sublist (str_lower u fragment) (str_lower u fname)) cfg)"
  by (induction cfg) (auto simp: py_in_sublist)

lemma do_lower_ascii:
  "ascii_rows u \<Longrightarrow> ascii s \<Longrightarrow> do_lower u seen s = map ascii_lower s"
  by (induction s arbitrary: seen) (auto simp: ascii_def ascii_rows_def lower_ucs4_def)

lemma str_lower_ascii: "ascii_rows u \<Longrightarrow> ascii s \<Longrightarrow> str_lower u s = map ascii_lower s"
  by (simp add: str_lower_def do_lower_ascii)

lemma sublist_map_iff:
  "sublist (map f a) (map f b) \<longleftrightarrow> (\<exists>block. sublist block b \<and> map f block = map f a)"
proof
  assume "sublist (map f a) (map f b)"
  from sublist_map_rightE[OF this] show "\<exists>block. sublist block b \<and> map f block = map f a"
    by metis
next
  assume "\<exists>block. sublist block b \<and> map f block = map f a"
  then obtain block where "sublist block b" "map f block = map f a" by blast
  with map_mono_sublist[of block b f] show "sublist (map f a) (map f b)" by simp
qed

lemma caseless_occurs_map:
  "caseless_occurs (map f) fragment fname \<longleftrightarrow> sublist (map f fragment) (map f fname)"
  by (auto simp: caseless_occurs_def list_ex_iff sublist_map_iff)

lemma find_cong_set: "(\<And>x. x \<in> set xs \<Longrightarrow> P x = Q x) \<Longrightarrow> find P xs = find Q xs"
  by (induction xs) auto

text \<open>
  C1 (as the code has it). For every configuration whose record-type keys are non-empty
  and every file name, the classifier assigns the key of the first entry, in configuration
  order, whose fragment lower-cased by \<open>str.lower\<close> occurs in the file name lower-cased
  by \<open>str.lower\<close>, and the file is unrecognized when no entry passes this test. When the
  file name and the fragments are ASCII, the test is case-insensitive substring
  containment of the fragment in the file name.
\<close>

theorem file_type_is_first_lowered_match:
  assumes "\<forall>(k, fragment) \<in> set cfg. k \<noteq> []"
  shows "file_type_of u cfg fname =
           map_option fst
             (find (\<lambda>(k, fragment). sublist (str_lower u fragment) (str_lower u fname)) cfg)
       \<and> (ascii_rows u \<and> ascii fname \<and> (\<forall>(k, fragment) \<in> set cfg. ascii fragment) \<longrightarrow>
            file_type_of u cfg fname =
              map_option fst
                (find (\<lambda>(k, fragment). caseless_occurs (map ascii_lower) fragment fname) cfg))"
proof -
  let ?m = "find (\<lambda>(k, fragment). sublist (str_lower u fragment) (str_lower u fname)) cfg"
  have key: "k \<noteq> []" if "?m = Some (k, fragment)" for k fragment
  proof -
    from that have "(k, fragment) \<in> set cfg"
      by (auto simp: find_Some_iff in_set_conv_nth)
    with assms show ?thesis by auto
  qed
  have first: "file_type_of u cfg fname = map_option fst ?m"
  proof (cases ?m)
    case None
    then show ?thesis by (simp add: file_type_of_def find_file_type_find)
  next
    case (Some e)
    obtain k fragment where e: "e = (k, fragment)" by (cases e)
    with Some key have "k \<noteq> []" by simp
    with Some e show ?thesis by (simp add: file_type_of_def find_file_type_find)
  qed
  have second: "?m = find (\<lambda>(k, fragment). caseless_occurs (map ascii_lower) fragment fname) cfg"
    if a: "ascii_rows u" "ascii fname" "\<forall>(k, fragment) \<in> set cfg. ascii fragment"
  proof (rule find_cong_set)
    fix e assume "e \<in> set cfg"
    with a(3) have "ascii (snd e)" by auto
    with a(1,2) show "(case e of (k, fragment) \<Rightarrow> sublist (str_lower u fragment) (str_lower u fname))
            = (case e of (k, fragment) \<Rightarrow> caseless_occurs (map ascii_lower) fragment fname)"
      by (cases e) (simp add: str_lower_ascii caseless_occurs_map)
  qed
  from first second show ?thesis by simp
qed

lemma ascii_rows_greek_rows: "ascii_rows greek_rows"
  by (simp add: ascii_rows_def greek_rows_def ascii_lower_def)

theorem file_type_is_first_lowered_match_witness:
  "file_type_of greek_rows sheet_cfg (codes ''TimeSheet_EMPLOYEE.csv'') = Some ''employee''
   \<and> map_option fst
        (find (\<lambda>(k, fragment).
                 caseless_occurs (map ascii_lower) fragment (codes ''TimeSheet_EMPLOYEE.csv''))
           sheet_cfg) = Some ''employee''"
proof -
  have k: "\<forall>(k, fragment) \<in> set sheet_cfg. k \<noteq> []"
    by (simp add: sheet_cfg_def)
  have a: "ascii (codes ''TimeSheet_EMPLOYEE.csv'')"
    by code_simp
  have f: "\<forall>(k, fragment) \<in> set sheet_cfg. ascii fragment"
    unfolding sheet_cfg_def by code_simp
  have v: "file_type_of greek_rows sheet_cfg (codes ''TimeSheet_EMPLOYEE.csv'') = Some ''employee''"
    by code_simp
  from file_type_is_first_lowered_match[OF k, of greek_rows "codes ''TimeSheet_EMPLOYEE.csv''"]
    ascii_rows_greek_rows a f
  have "file_type_of greek_rows sheet_cfg (codes ''TimeSheet_EMPLOYEE.csv'') =
          map_option fst
            (find (\<lambda>(k, fragment).
                 caseless_occurs (map ascii_lower) fragment (codes ''TimeSheet_EMPLOYEE.csv''))
               sheet_cfg)"
    by blast
  with v show ?thesis by simp
qed

text \<open>
  C1 as stated fails where \<open>str.lower\<close> depends on the context: the fragment
  \<open>U+039F U+0394 U+039F U+03A3\<close> occurs as it stands in the file name
  \<open>U+039F U+0394 U+039F U+03A3 U+0391 .csv\<close>, but its sigma is lower-cased to the final
  sigma and the one of the file name to the small sigma, so the file is unrecognized.
\<close>

theorem final_sigma_counterexample:
  "sublist street_fragment street_file
   \<and> caseless_occurs (str_lower greek_rows) street_fragment street_file
   \<and> str_lower greek_rows street_fragment = [0x3BF, 0x3B4, 0x3BF, 0x3C2]
   \<and> str_lower greek_rows street_file = [0x3BF, 0x3B4, 0x3BF, 0x3C3, 0x3B1] @ codes ''.csv''
   \<and> file_type_of greek_rows [(''street'', street_fragment)] street_file = None"
proof -
  have s: "sublist street_fragment street_file"
    by (simp add: street_fragment_def street_file_def)
  then have "street_fragment \<in> set (sublists street_file)" by simp
  then have c: "caseless_occurs (str_lower greek_rows) street_fragment street_file"
    unfolding caseless_occurs_def list_ex_iff by blast
  have l1: "str_lower greek_rows street_fragment = [0x3BF, 0x3B4, 0x3BF, 0x3C2]"
    by code_simp
  have l2: "str_lower greek_rows street_file = [0x3BF, 0x3B4, 0x3BF, 0x3C3, 0x3B1] @ codes ''.csv''"
    by code_simp
  have n: "file_type_of greek_rows [(''street'', street_fragment)] street_file = None"
    by code_simp
  from s c l1 l2 n show ?thesis by simp
qed

text \<open>The classifier on strings of 7-bit characters is the classifier on their code points.\<close>

lemma codes_lower: "ascii (codes s) \<Longrightarrow> codes (lower s) = map ascii_lower (codes s)"
proof (induction s)
  case Nil
  then show ?case by (simp add: codes_def lower_def)
next
  case (Cons c s)
  from Cons.prems have c: "(of_char c :: nat) < 128" and s: "ascii (codes s)"
    by (simp_all add: ascii_def codes_def)
  have "(of_char (lower_char c) :: nat) = ascii_lower (of_char c)"
    using c by (auto simp: lower_char_def ascii_lower_def Let_def)
  with Cons.IH[OF s] show ?case by (simp add: codes_def lower_def)
qed

lemma sublist_codes: "sublist (codes a) (codes b) \<longleftrightarrow> sublist a b"
proof -
  have "inj (of_char :: char \<Rightarrow> nat)" by (rule inj_of_char)
  then have e: "map of_char block = (map of_char a :: nat list) \<longleftrightarrow> block = a" for block
    by (simp add: inj_map_eq_map)
  show ?thesis unfolding codes_def sublist_map_iff by (simp add: e)
qed

lemma match_type_agrees:
  assumes "ascii_rows u" "ascii (codes fname)" "\<forall>(k, fragment) \<in> set cfg. ascii (codes fragment)"
  shows "match_type cfg fname
           = find_file_type u (map (\<lambda>(k, fragment). (k, codes fragment)) cfg) (codes fname)"
  using assms(3)
proof (induction cfg)
  case Nil
  then show ?case by simp
next
  case (Cons e cfg)
  obtain k fragment where e: "e = (k, fragment)" by (cases e)
  with Cons.prems have a: "ascii (codes fragment)" and r: "\<forall>(k, fragment) \<in> set cfg. ascii (codes fragment)"
    by simp_all
  have "py_in (str_lower u (codes fragment)) (str_lower u (codes fname))
          = py_in (lower fragment) (lower fname)"
    using assms(1,2) a
    by (simp add: py_in_sublist str_lower_ascii codes_lower[symmetric] sublist_codes)
  with Cons.IH[OF r] e show ?case by simp
qed

lemma classify_agrees:
  assumes "ascii_rows u" "ascii (codes fname)" "\<forall>(k, fragment) \<in> set cfg. ascii (codes fragment)"
  shows "classify cfg fname
           = file_type_of u (map (\<lambda>(k, fragment). (k, codes fragment)) cfg) (codes fname)"
  by (simp add: classify_def file_type_of_def match_type_agrees[OF assms])

section \<open>Facts about the upload loop\<close>

lemma upload_loop_unrecognized:
  "upload_loop os uf cfg files st = (Returned (), st') \<Longrightarrow>
   unrecognized_files st' =
     unrecognized_files st @ map name (filter (\<lambda>f. classify cfg (name f) = None) files)"
proof (induction files arbitrary: st)
  case Nil
  then show ?case by simp
next
  case (Cons f files)
  then show ?case
    by (auto split: option.splits prod.splits outcome.splits simp: Let_def)
qed

lemma find_snoc:
  "find P (xs @ [x]) = (case find P xs of Some y \<Rightarrow> Some y | None \<Rightarrow> if P x then Some x else None)"
  by (induction xs) auto

lemma upload_loop_files_dict:
  "upload_loop os uf cfg files st = (Returned (), st') \<Longrightarrow>
   map_of (files_dict st') k =
     (case find (\<lambda>f. classify cfg (name f) = Some k) (rev files) of
        None \<Rightarrow> map_of (files_dict st) k
      | Some f \<Rightarrow> Some (save_path uf k f))"
proof (induction files arbitrary: st)
  case Nil
  then show ?case by simp
next
  case (Cons f files)
  show ?case
  proof (cases "classify cfg (name f)")
    case None
    with Cons.prems have "upload_loop os uf cfg files (st\<lparr>unrecognized_files := unrecognized_files st @ [name f]\<rparr>) = (Returned (), st')"
      by simp
    from Cons.IH[OF this] None show ?thesis
      by (simp add: find_snoc split: option.splits)
  next
    case (Some ft)
    with Cons.prems obtain files' where
      w: "write_file os (disk st) (save_path uf ft f) (getbuffer f) = (Returned (), files')"
      and r: "upload_loop os uf cfg files
                 (st\<lparr>disk := files', files_dict := AList.update ft (save_path uf ft f) (files_dict st)\<rparr>) = (Returned (), st')"
      by (auto simp: Let_def split: prod.splits outcome.splits)
    from Cons.IH[OF r] Some show ?thesis
      by (auto simp add: find_snoc update_conv' split: option.splits)
  qed
qed

lemma upload_loop_keys:
  "upload_loop os uf cfg files st = (Returned (), st') \<Longrightarrow>
   distinct (map fst (files_dict st)) \<Longrightarrow> distinct (map fst (files_dict st'))"
proof (induction files arbitrary: st)
  case Nil
  then show ?case by simp
next
  case (Cons f files)
  show ?case
  proof (cases "classify cfg (name f)")
    case None
    with Cons.prems show ?thesis by (auto intro: Cons.IH)
  next
    case (Some ft)
    with Cons.prems obtain files' where
      r: "upload_loop os uf cfg files
                 (st\<lparr>disk := files', files_dict := AList.update ft (save_path uf ft f) (files_dict st)\<rparr>) = (Returned (), st')"
      by (auto simp: Let_def split: prod.splits outcome.splits)
    show ?thesis
      by (rule Cons.IH[OF r]) (simp add: distinct_update Cons.prems)
  qed
qed


lemma upload_loop_returns:
  "\<exists>st'. upload_loop always_written uf cfg files st = (Returned (), st')"
  by (induction files arbitrary: st)
     (auto simp: Let_def write_file_def always_written_def split: option.splits)

lemma update_fresh: "k \<notin> fst ` set al \<Longrightarrow> AList.update k v al = al @ [(k, v)]"
  by (induction al) auto

lemma upload_loop_distinct_types:
  "upload_loop os uf cfg files st = (Returned (), st') \<Longrightarrow>
   distinct (map fst (files_dict st) @ map (\<lambda>f. fst (entry_of uf cfg f)) (recognized cfg files)) \<Longrightarrow>
   files_dict st' = files_dict st @ map (entry_of uf cfg) (recognized cfg files)"
proof (induction files arbitrary: st)
  case Nil
  then show ?case by (simp add: recognized_def)
next
  case (Cons f files)
  show ?case
  proof (cases "classify cfg (name f)")
    case None
    with Cons.prems have
      r: "upload_loop os uf cfg files (st\<lparr>unrecognized_files := unrecognized_files st @ [name f]\<rparr>) = (Returned (), st')"
      and d: "distinct (map fst (files_dict st) @ map (\<lambda>f. fst (entry_of uf cfg f)) (recognized cfg files))"
      by (simp_all add: recognized_def)
    from Cons.IH[OF r] d None show ?thesis by (simp add: recognized_def)
  next
    case (Some ft)
    with Cons.prems obtain files' where
      r: "upload_loop os uf cfg files
                 (st\<lparr>disk := files', files_dict := AList.update ft (save_path uf ft f) (files_dict st)\<rparr>) = (Returned (), st')"
      by (auto simp: Let_def split: prod.splits outcome.splits)
    from Some have rec: "recognized cfg (f # files) = f # recognized cfg files"
      and e: "entry_of uf cfg f = (ft, save_path uf ft f)"
      by (simp_all add: recognized_def entry_of_def)
    from Cons.prems(2) rec e have fresh: "ft \<notin> fst ` set (files_dict st)"
      and d: "distinct (map fst (files_dict st @ [(ft, save_path uf ft f)]) @ map (\<lambda>f. fst (entry_of uf cfg f)) (recognized cfg files))"
      by auto
    have u: "AList.update ft (save_path uf ft f) (files_dict st) = files_dict st @ [(ft, save_path uf ft f)]"
      by (rule update_fresh[OF fresh])
    from Cons.IH[OF r] d u rec e show ?thesis by simp
  qed
qed

lemma set_update_subset: "set (AList.update k v al) \<subseteq> insert (k, v) (set al)"
  by (induction al) auto

lemma upload_loop_entries:
  "upload_loop os uf cfg files st = (r, st') \<Longrightarrow>
   set (files_dict st') \<subseteq> set (files_dict st) \<union> entry_of uf cfg ` set (recognized cfg files)"
proof (induction files arbitrary: st)
  case Nil
  then show ?case by simp
next
  case (Cons f files)
  show ?case
  proof (cases "classify cfg (name f)")
    case None
    with Cons.prems have
      r: "upload_loop os uf cfg files (st\<lparr>unrecognized_files := unrecognized_files st @ [name f]\<rparr>) = (r, st')"
      by simp
    from Cons.IH[OF r] None show ?thesis by (simp add: recognized_def)
  next
    case (Some ft)
    from Some have rec: "recognized cfg (f # files) = f # recognized cfg files"
      and e: "entry_of uf cfg f = (ft, save_path uf ft f)"
      by (simp_all add: recognized_def entry_of_def)
    have upd: "set (AList.update ft (save_path uf ft f) (files_dict st))
                 \<subseteq> insert (ft, save_path uf ft f) (set (files_dict st))"
      by (rule set_update_subset)
    show ?thesis
    proof (cases "write_file os (disk st) (save_path uf ft f) (getbuffer f)")
      case (Pair w files')
      show ?thesis
      proof (cases w)
        case (Returned u)
        with Pair Some Cons.prems have
          r: "upload_loop os uf cfg files
                 (st\<lparr>disk := files', files_dict := AList.update ft (save_path uf ft f) (files_dict st)\<rparr>) = (r, st')"
          by (simp add: Let_def)
        from Cons.IH[OF r] upd rec e show ?thesis by auto
      next
        case (Raised x)
        with Pair Some Cons.prems have "st' = st\<lparr>disk := files'\<rparr>"
          by (auto simp: Let_def)
        then show ?thesis by auto
      qed
    qed
  qed
qed


lemma write_file_frame:
  "write_file os d p c = (r, d') \<Longrightarrow> q \<noteq> p \<Longrightarrow> d' q = d q"
  by (auto simp: write_file_def split: write_result.splits option.splits)

lemma write_file_Returned:
  "write_file os d p c = (Returned u, d') \<Longrightarrow> d' = d(p \<mapsto> c)"
  by (auto simp: write_file_def split: write_result.splits option.splits)

lemma upload_loop_disk_frame:
  "upload_loop os uf cfg files st = (r, st') \<Longrightarrow>
   \<not> list_ex (saved_at uf cfg q) files \<Longrightarrow> disk st' q = disk st q"
proof (induction files arbitrary: st)
  case Nil
  then show ?case by simp
next
  case (Cons f files)
  show ?case
  proof (cases "classify cfg (name f)")
    case None
    with Cons.prems have
      r: "upload_loop os uf cfg files (st\<lparr>unrecognized_files := unrecognized_files st @ [name f]\<rparr>) = (r, st')"
      and n: "\<not> list_ex (saved_at uf cfg q) files"
      by simp_all
    from Cons.IH[OF r n] show ?thesis by simp
  next
    case (Some ft)
    from Cons.prems(2) have n: "\<not> list_ex (saved_at uf cfg q) files"
      by simp
    from Some Cons.prems(2) have ne: "q \<noteq> save_path uf ft f"
      by (auto simp: saved_at_def)
    show ?thesis
    proof (cases "write_file os (disk st) (save_path uf ft f) (getbuffer f)")
      case (Pair w files')
      from write_file_frame[OF Pair ne] have fr: "files' q = disk st q" .
      show ?thesis
      proof (cases w)
        case (Returned u)
        with Pair Some Cons.prems have
          r: "upload_loop os uf cfg files
                 (st\<lparr>disk := files', files_dict := AList.update ft (save_path uf ft f) (files_dict st)\<rparr>) = (r, st')"
          by (simp add: Let_def)
        from Cons.IH[OF r n] fr show ?thesis by simp
      next
        case (Raised x)
        with Pair Some Cons.prems have "st' = st\<lparr>disk := files'\<rparr>"
          by (auto simp: Let_def)
        with fr show ?thesis by simp
      qed
    qed
  qed
qed

lemma upload_loop_disk:
  "upload_loop os uf cfg files st = (Returned (), st') \<Longrightarrow>
   disk st' q =
     (case find (saved_at uf cfg q) (rev files) of
        None \<Rightarrow> disk st q
      | Some f \<Rightarrow> Some (getbuffer f))"
proof (induction files arbitrary: st)
  case Nil
  then show ?case by simp
next
  case (Cons f files)
  show ?case
  proof (cases "classify cfg (name f)")
    case None
    with Cons.prems have
      r: "upload_loop os uf cfg files (st\<lparr>unrecognized_files := unrecognized_files st @ [name f]\<rparr>) = (Returned (), st')"
      by simp
    from Cons.IH[OF r] None show ?thesis
      by (simp add: find_snoc saved_at_def split: option.splits)
  next
    case (Some ft)
    with Cons.prems obtain files' where
      w: "write_file os (disk st) (save_path uf ft f) (getbuffer f) = (Returned (), files')"
      and r: "upload_loop os uf cfg files
                 (st\<lparr>disk := files', files_dict := AList.update ft (save_path uf ft f) (files_dict st)\<rparr>) = (Returned (), st')"
      by (auto simp: Let_def split: prod.splits outcome.splits)
    from write_file_Returned[OF w] have "files' = (disk st)(save_path uf ft f \<mapsto> getbuffer f)" .
    with Cons.IH[OF r] Some show ?thesis
      by (auto simp add: find_snoc saved_at_def split: option.splits)
  qed
qed

lemma render_upload_Returned:
  "render_upload os uf cfg files button d = (Returned page, d') \<Longrightarrow> files \<noteq> [] \<Longrightarrow>
   \<exists>st. upload_loop os uf cfg files (initial_upload_state d) = (Returned (), st)
     \<and> page = \<lparr>shown = status_message st, handed_to_pipeline = process_files_argument button st\<rparr>
     \<and> d' = disk st"
  by (auto simp: render_upload_def split: prod.splits outcome.splits)

lemma render_upload_empty:
  "render_upload os uf cfg [] button d = (Returned \<lparr>shown = None, handed_to_pipeline = None\<rparr>, d)"
  by (simp add: render_upload_def)

lemma handed_to_pipeline_files_dict:
  assumes "render_upload os uf cfg files button d = (Returned page, d')"
    and "handed_to_pipeline page = Some m"
  shows "\<exists>st. upload_loop os uf cfg files (initial_upload_state d) = (Returned (), st) \<and> files_dict st = m"
proof (cases "files = []")
  case True
  with assms show ?thesis by (auto simp: render_upload_def)
next
  case False
  from render_upload_Returned[OF assms(1) False] assms(2) show ?thesis
    by (auto simp: process_files_argument_def split: if_splits)
qed

text \<open>
  C9. When several files of one batch are classified to the same record type, the mapping
  handed to the pipeline holds, under that type, the save path of the last such file of
  the batch (later files overwrite earlier ones), and no type occurs twice: at most one
  file per record type reaches the pipeline.
\<close>

theorem pipeline_gets_last_file_per_type:
  assumes "render_upload os uf cfg files button d = (Returned page, d')"
    and "handed_to_pipeline page = Some m"
  shows "distinct (map fst m) \<and>
         map_of m k =
           map_option (save_path uf k) (find (\<lambda>f. classify cfg (name f) = Some k) (rev files))"
proof -
  from handed_to_pipeline_files_dict[OF assms] obtain st where
    l: "upload_loop os uf cfg files (initial_upload_state d) = (Returned (), st)"
    and m: "files_dict st = m" by blast
  from upload_loop_keys[OF l] m have "distinct (map fst m)"
    by (simp add: initial_upload_state_def)
  moreover from upload_loop_files_dict[OF l, of k] m
  have "map_of m k =
           map_option (save_path uf k) (find (\<lambda>f. classify cfg (name f) = Some k) (rev files))"
    by (simp add: initial_upload_state_def split: option.splits)
  ultimately show ?thesis by simp
qed

lemma clashing_render:
  "fst (render_upload always_written demo_folder demo_cfg clashing_batch True Map.empty) =
     Returned \<lparr>shown = Some (Warning 2 [''notes.csv'']),
               handed_to_pipeline = Some [(''employee'', ''uploads/employee_Employee_feb.csv''),
                                          (''timesheet'', ''uploads/timesheet_timesheet.csv'')]\<rparr>"
  by code_simp

theorem pipeline_gets_last_file_per_type_witness:
  "\<exists>page d'. render_upload always_written demo_folder demo_cfg clashing_batch True Map.empty
       = (Returned page, d')
     \<and> handed_to_pipeline page = Some [(''employee'', ''uploads/employee_Employee_feb.csv''),
                                       (''timesheet'', ''uploads/timesheet_timesheet.csv'')]
     \<and> distinct (map fst [(''employee'', ''uploads/employee_Employee_feb.csv''),
                           (''timesheet'', ''uploads/timesheet_timesheet.csv'')])
     \<and> map_of [(''employee'', ''uploads/employee_Employee_feb.csv''),
                (''timesheet'', ''uploads/timesheet_timesheet.csv'')] ''employee''
         = map_option (save_path demo_folder ''employee'')
             (find (\<lambda>f. classify demo_cfg (name f) = Some ''employee'') (rev clashing_batch))"
proof -
  let ?m = "[(''employee'', ''uploads/employee_Employee_feb.csv''),
             (''timesheet'', ''uploads/timesheet_timesheet.csv'')]"
  obtain r d' where "render_upload always_written demo_folder demo_cfg clashing_batch True Map.empty = (r, d')"
    by (cases "render_upload always_written demo_folder demo_cfg clashing_batch True Map.empty")
  with clashing_render obtain page where
    p: "render_upload always_written demo_folder demo_cfg clashing_batch True Map.empty = (Returned page, d')"
    and h: "handed_to_pipeline page = Some ?m"
    by auto
  from pipeline_gets_last_file_per_type[OF p h, of "''employee''"] p h
  show ?thesis by blast
qed


lemma find_None_iff_list: "find P xs = None \<longleftrightarrow> \<not> list_ex P xs"
  by (induction xs) auto

lemma upload_loop_nonempty:
  assumes "upload_loop os uf cfg files st = (Returned (), st')"
    and "recognized cfg files \<noteq> []"
  shows "files_dict st' \<noteq> []"
proof -
  from assms(2) obtain f where f: "f \<in> set files" "classify cfg (name f) \<noteq> None"
    by (auto simp: recognized_def filter_empty_conv)
  then obtain k where k: "classify cfg (name f) = Some k" by auto
  with f have "list_ex (\<lambda>f. classify cfg (name f) = Some k) (rev files)"
    by (auto simp: list_ex_iff)
  then obtain g where "find (\<lambda>f. classify cfg (name f) = Some k) (rev files) = Some g"
    by (cases "find (\<lambda>f. classify cfg (name f) = Some k) (rev files)")
       (simp_all add: find_None_iff_list)
  with upload_loop_files_dict[OF assms(1), of k] have "map_of (files_dict st') k \<noteq> None"
    by simp
  then show ?thesis by auto
qed

text \<open>
  C7 (as the code has it). Every entry of the mapping handed to the pipeline is the entry
  of a recognized file, so unrecognized files never reach the pipeline; when the batch has
  both recognized and unrecognized files, the warning shown to the user lists exactly the
  unrecognized names, in upload order; and when the recognized files have pairwise distinct
  record types, the mapping handed to the pipeline consists of exactly the recognized
  files, one entry each (three entries for three recognized files plus one unrecognized).
\<close>

theorem unrecognized_kept_from_pipeline:
  assumes "render_upload os uf cfg files button d = (Returned page, d')"
  shows "(\<forall>m. handed_to_pipeline page = Some m \<longrightarrow>
            set m \<subseteq> entry_of uf cfg ` set (recognized cfg files))
       \<and> (recognized cfg files \<noteq> [] \<and> unrecognized cfg files \<noteq> [] \<longrightarrow>
            (\<exists>n. shown page = Some (Warning n (map name (unrecognized cfg files)))))
       \<and> (distinct (map (\<lambda>f. classify cfg (name f)) (recognized cfg files))
            \<and> recognized cfg files \<noteq> [] \<and> button \<longrightarrow>
            handed_to_pipeline page = Some (map (entry_of uf cfg) (recognized cfg files)))"
proof (cases "files = []")
  case True
  with assms show ?thesis by (auto simp: render_upload_def recognized_def)
next
  case False
  from render_upload_Returned[OF assms False] obtain st where
    l: "upload_loop os uf cfg files (initial_upload_state d) = (Returned (), st)"
    and page: "page = \<lparr>shown = status_message st, handed_to_pipeline = process_files_argument button st\<rparr>"
    by blast
  have a: "set m \<subseteq> entry_of uf cfg ` set (recognized cfg files)"
    if "handed_to_pipeline page = Some m" for m
  proof -
    from that page have "files_dict st = m"
      by (auto simp: process_files_argument_def split: if_splits)
    with upload_loop_entries[OF l] show ?thesis
      by (simp add: initial_upload_state_def)
  qed
  have b: "\<exists>n. shown page = Some (Warning n (map name (unrecognized cfg files)))"
    if "recognized cfg files \<noteq> []" "unrecognized cfg files \<noteq> []"
  proof -
    from upload_loop_nonempty[OF l that(1)] have "files_dict st \<noteq> []" .
    moreover from upload_loop_unrecognized[OF l]
    have "unrecognized_files st = map name (unrecognized cfg files)"
      by (simp add: initial_upload_state_def unrecognized_def)
    ultimately show ?thesis using that(2) page
      by (simp add: status_message_def)
  qed
  have c: "handed_to_pipeline page = Some (map (entry_of uf cfg) (recognized cfg files))"
    if dt: "distinct (map (\<lambda>f. classify cfg (name f)) (recognized cfg files))"
      and ne: "recognized cfg files \<noteq> []" and bt: "button"
  proof -
    have e: "map (\<lambda>f. fst (entry_of uf cfg f)) (recognized cfg files)
            = map (\<lambda>f. the (classify cfg (name f))) (recognized cfg files)"
      by (rule map_cong) (auto simp: entry_of_def recognized_def)
    have "inj_on the (set (map (\<lambda>f. classify cfg (name f)) (recognized cfg files)))"
      by (auto simp: inj_on_def recognized_def)
    with dt have "distinct (map the (map (\<lambda>f. classify cfg (name f)) (recognized cfg files)))"
      by (subst distinct_map) blast
    then have "distinct (map (\<lambda>f. the (classify cfg (name f))) (recognized cfg files))"
      by (simp add: comp_def)
    then have "distinct (map (\<lambda>f. fst (entry_of uf cfg f)) (recognized cfg files))"
      by (simp only: e)
    with upload_loop_distinct_types[OF l]
    have fd: "files_dict st = map (entry_of uf cfg) (recognized cfg files)"
      by (simp add: initial_upload_state_def)
    with ne bt page show ?thesis
      by (simp add: process_files_argument_def)
  qed
  from a b c show ?thesis by blast
qed

lemma distinct_render:
  "fst (render_upload always_written demo_folder demo_cfg distinct_batch True Map.empty) =
     Returned \<lparr>shown = Some (Warning 3 [''notes.csv'']),
               handed_to_pipeline = Some [(''employee'', ''uploads/employee_Employee_jan.csv''),
                                          (''project'', ''uploads/project_project.csv''),
                                          (''timesheet'', ''uploads/timesheet_timesheet.csv'')]\<rparr>"
  by code_simp

lemma distinct_batch_split:
  "recognized demo_cfg distinct_batch = take 3 distinct_batch"
  "unrecognized demo_cfg distinct_batch = drop 3 distinct_batch"
  "map (\<lambda>f. classify demo_cfg (name f)) (take 3 distinct_batch) = [Some ''employee'', Some ''project'', Some ''timesheet'']"
  unfolding recognized_def unrecognized_def by code_simp+


theorem unrecognized_kept_from_pipeline_witness:
  "\<exists>page d'. render_upload always_written demo_folder demo_cfg distinct_batch True Map.empty
        = (Returned page, d')
     \<and> length (recognized demo_cfg distinct_batch) = 3
     \<and> map name (unrecognized demo_cfg distinct_batch) = [''notes.csv'']
     \<and> shown page = Some (Warning 3 [''notes.csv''])
     \<and> handed_to_pipeline page
          = Some (map (entry_of demo_folder demo_cfg) (recognized demo_cfg distinct_batch))
     \<and> length (the (handed_to_pipeline page)) = 3"
proof -
  obtain r d' where "render_upload always_written demo_folder demo_cfg distinct_batch True Map.empty = (r, d')"
    by (cases "render_upload always_written demo_folder demo_cfg distinct_batch True Map.empty")
  with distinct_render obtain page where
    p: "render_upload always_written demo_folder demo_cfg distinct_batch True Map.empty = (Returned page, d')"
    and s: "shown page = Some (Warning 3 [''notes.csv''])"
    by auto
  have n: "length (recognized demo_cfg distinct_batch) = 3"
    by (simp add: distinct_batch_split) (simp add: distinct_batch_def)
  have u: "map name (unrecognized demo_cfg distinct_batch) = [''notes.csv'']"
    by (simp add: distinct_batch_split) (simp add: distinct_batch_def)
  have dt: "distinct (map (\<lambda>f. classify demo_cfg (name f)) (recognized demo_cfg distinct_batch))"
    by (simp add: distinct_batch_split)
  from n have ne: "recognized demo_cfg distinct_batch \<noteq> []" by auto
  from unrecognized_kept_from_pipeline[OF p] dt ne
  have h: "handed_to_pipeline page
          = Some (map (entry_of demo_folder demo_cfg) (recognized demo_cfg distinct_batch))"
    by blast
  with n have "length (the (handed_to_pipeline page)) = 3" by simp
  with p n u s h show ?thesis
    by - (rule exI[of _ page], rule exI[of _ d'], simp)
qed

text \<open>
  C7 as stated fails for a batch of three recognized files and one unrecognized file in
  which two recognized files share a record type: the mapping handed to the pipeline has
  two entries, so the pipeline's statistics cannot cover the three recognized files.
\<close>

theorem three_recognized_two_reach_pipeline_counterexample:
  "length (recognized demo_cfg clashing_batch) = 3
   \<and> length (unrecognized demo_cfg clashing_batch) = 1
   \<and> fst (render_upload always_written demo_folder demo_cfg clashing_batch True Map.empty) =
       Returned \<lparr>shown = Some (Warning 2 [''notes.csv'']),
                 handed_to_pipeline = Some [(''employee'', ''uploads/employee_Employee_feb.csv''),
                                            (''timesheet'', ''uploads/timesheet_timesheet.csv'')]\<rparr>"
proof -
  have "length (recognized demo_cfg clashing_batch) = 3"
    unfolding recognized_def by code_simp
  moreover have "length (unrecognized demo_cfg clashing_batch) = 1"
    unfolding unrecognized_def by code_simp
  ultimately show ?thesis using clashing_render by simp
qed

text \<open>
  C2 (as the code has it). The loop that classifies a batch also saves every recognized
  file: whatever the outcome, the file system is unchanged at every path that is not the
  save path of a recognized file of the batch (so unrecognized files cause no write), and
  when the loop completes, each such save path holds the bytes of the last file saved
  there. The loop makes no database call.
\<close>

theorem upload_writes_only_recognized_files:
  assumes "render_upload os uf cfg files button d = (r, d')"
  shows "(\<not> list_ex (saved_at uf cfg q) files \<longrightarrow> d' q = d q)
       \<and> ((\<exists>page. r = Returned page) \<longrightarrow>
            d' q = (case find (saved_at uf cfg q) (rev files) of
                      None \<Rightarrow> d q
                    | Some f \<Rightarrow> Some (getbuffer f)))"
proof (cases "files = []")
  case True
  with assms show ?thesis by (auto simp: render_upload_def)
next
  case False
  obtain w st where l: "upload_loop os uf cfg files (initial_upload_state d) = (w, st)"
    by (cases "upload_loop os uf cfg files (initial_upload_state d)")
  with assms False have d': "d' = disk st"
    by (auto simp: render_upload_def split: outcome.splits)
  have "d' q = d q" if "\<not> list_ex (saved_at uf cfg q) files"
    using upload_loop_disk_frame[OF l that] d' by (simp add: initial_upload_state_def)
  moreover have "d' q = (case find (saved_at uf cfg q) (rev files) of
                      None \<Rightarrow> d q
                    | Some f \<Rightarrow> Some (getbuffer f))" if "\<exists>page. r = Returned page"
  proof -
    from that assms False l have "w = Returned ()"
      by (auto simp: render_upload_def split: outcome.splits)
    with l upload_loop_disk[of os uf cfg files "initial_upload_state d" st q] d'
    show ?thesis by (simp add: initial_upload_state_def split: option.splits)
  qed
  ultimately show ?thesis by blast
qed

theorem upload_writes_only_recognized_files_witness:
  "\<exists>page d'. render_upload always_written demo_folder demo_cfg distinct_batch False Map.empty
        = (Returned page, d')
     \<and> \<not> list_ex (saved_at demo_folder demo_cfg ''uploads/notes.csv'') distinct_batch
     \<and> d' ''uploads/notes.csv'' = None
     \<and> d' ''uploads/project_project.csv'' = Some ''b''"
proof -
  obtain r d' where rd: "render_upload always_written demo_folder demo_cfg distinct_batch False Map.empty = (r, d')"
    by (cases "render_upload always_written demo_folder demo_cfg distinct_batch False Map.empty")
  have "fst (render_upload always_written demo_folder demo_cfg distinct_batch False Map.empty)
          = Returned \<lparr>shown = Some (Warning 3 [''notes.csv'']), handed_to_pipeline = None\<rparr>"
    by code_simp
  with rd obtain page where
    p: "render_upload always_written demo_folder demo_cfg distinct_batch False Map.empty = (Returned page, d')"
    by auto
  have n: "\<not> list_ex (saved_at demo_folder demo_cfg ''uploads/notes.csv'') distinct_batch"
    by code_simp
  have f: "find (saved_at demo_folder demo_cfg ''uploads/project_project.csv'') (rev distinct_batch)
             = Some \<lparr>name = ''project.csv'', getbuffer = ''b''\<rparr>"
    by code_simp
  from upload_writes_only_recognized_files[OF p, of "''uploads/notes.csv''"] n
  have a: "d' ''uploads/notes.csv'' = None" by simp
  from upload_writes_only_recognized_files[OF p, of "''uploads/project_project.csv''"] f
  have b: "d' ''uploads/project_project.csv'' = Some ''b''" by simp
  from p n a b show ?thesis
    by - (rule exI[of _ page], rule exI[of _ d'], simp)
qed

text \<open>
  C2 as stated fails: classifying a batch with one recognized file changes the file
  system.
\<close>

theorem classifying_batch_writes_file_counterexample:
  "classify demo_cfg ''employee.csv'' = Some ''employee''
   \<and> snd (render_upload always_written demo_folder demo_cfg
             [\<lparr>name = ''employee.csv'', getbuffer = ''a''\<rparr>] False Map.empty)
       \<noteq> Map.empty"
proof -
  have "classify demo_cfg ''employee.csv'' = Some ''employee''"
    by code_simp
  moreover have "snd (render_upload always_written demo_folder demo_cfg
             [\<lparr>name = ''employee.csv'', getbuffer = ''a''\<rparr>] False Map.empty)
           ''uploads/employee_employee.csv'' = Some ''a''"
    by code_simp
  then have "snd (render_upload always_written demo_folder demo_cfg
             [\<lparr>name = ''employee.csv'', getbuffer = ''a''\<rparr>] False Map.empty) \<noteq> Map.empty"
    by (metis option.distinct(1))
  ultimately show ?thesis by simp
qed

section \<open>Facts about the connection pool\<close>

lemma call_cases:
  "call env c t = (r, t') \<Longrightarrow>
   (r = Returned () \<and> t' = t @ [Call c None] \<and> raises env t c = None) \<or>
   (\<exists>msg. r = Raised (Error msg) \<and> t' = t @ [Call c (Some msg)] \<and> raises env t c = Some msg)"
  by (auto simp: call_def split: option.splits)

text \<open>
  C5. Whenever \<open>get_connection\<close> has obtained a connection, \<open>putconn\<close> is called with it
  as the last step of the scope, on every exit path: whether the body returns, raises an
  \<open>Exception\<close> or raises any other exception. Between the body's last event and that
  call the scope only logs. The scope passes the body's outcome on, unless \<open>putconn\<close>
  itself raises.
\<close>

theorem get_connection_always_releases:
  assumes "acquire env self t = Inr conn"
    and "body conn (t @ [GotConn conn]) = (r, tb)"
    and "get_connection env self body t = (r', t')"
  shows "\<exists>logs res. t' = tb @ logs @ [Call (PutConn conn) res]
           \<and> list_all is_log logs
           \<and> (case res of None \<Rightarrow> r' = r | Some msg \<Rightarrow> r' = Raised (Error msg))"
proof -
  define t2 where "t2 = (case r of
                       Raised e \<Rightarrow>
                         if is_Exception e
                         then tb @ [Logged ''Error getting connection from pool''] else tb
                     | Returned v \<Rightarrow> tb)"
  have "\<exists>logs. t2 = tb @ logs \<and> list_all is_log logs"
  proof (cases r)
    case (Returned v)
    then show ?thesis by (simp add: t2_def)
  next
    case (Raised e)
    then show ?thesis by (cases "is_Exception e") (simp_all add: t2_def)
  qed
  then obtain logs where logs: "t2 = tb @ logs" "list_all is_log logs" by blast
  obtain w t3 where c: "call env (PutConn conn) t2 = (w, t3)"
    by (cases "call env (PutConn conn) t2")
  from assms c have res: "(r', t') = (case w of Returned u \<Rightarrow> (r, t3) | Raised e \<Rightarrow> (Raised e, t3))"
    by (simp add: get_connection_def t2_def Let_def split: outcome.splits)
  from call_cases[OF c] show ?thesis
  proof
    assume "w = Returned () \<and> t3 = t2 @ [Call (PutConn conn) None] \<and> raises env t2 (PutConn conn) = None"
    with res logs have "t' = tb @ logs @ [Call (PutConn conn) None]" "r' = r" by auto
    with logs(2) show ?thesis by (intro exI[of _ logs] exI[of _ None]) simp
  next
    assume "\<exists>msg. w = Raised (Error msg) \<and> t3 = t2 @ [Call (PutConn conn) (Some msg)] \<and> raises env t2 (PutConn conn) = Some msg"
    then obtain msg where "w = Raised (Error msg)" "t3 = t2 @ [Call (PutConn conn) (Some msg)]" by blast
    with res logs have "t' = tb @ logs @ [Call (PutConn conn) (Some msg)]" "r' = Raised (Error msg)" by auto
    with logs(2) show ?thesis by (intro exI[of _ logs] exI[of _ "Some msg"]) simp
  qed
qed


theorem get_connection_always_releases_witness:
  "acquire quiet_driver ready_pool [] = Inr 7
   \<and> interrupted_body 7 ([] @ [GotConn 7]) = (Raised (BaseOnly ''KeyboardInterrupt''), [GotConn 7])
   \<and> (\<exists>logs res. snd (get_connection quiet_driver ready_pool interrupted_body [])
          = [GotConn 7] @ logs @ [Call (PutConn 7) res]
        \<and> list_all is_log logs
        \<and> (case res of
              None \<Rightarrow> fst (get_connection quiet_driver ready_pool interrupted_body [])
                       = Raised (BaseOnly ''KeyboardInterrupt'')
            | Some msg \<Rightarrow> fst (get_connection quiet_driver ready_pool interrupted_body [])
                       = Raised (Error msg)))"
proof -
  have a: "acquire quiet_driver ready_pool [] = Inr 7"
    by (simp add: acquire_def quiet_driver_def ready_pool_def)
  have b: "interrupted_body 7 ([] @ [GotConn 7]) = (Raised (BaseOnly ''KeyboardInterrupt''), [GotConn 7])"
    by (simp add: interrupted_body_def)
  have c: "get_connection quiet_driver ready_pool interrupted_body []
             = (fst (get_connection quiet_driver ready_pool interrupted_body []),
                snd (get_connection quiet_driver ready_pool interrupted_body []))"
    by simp
  from get_connection_always_releases[OF a b c] a b show ?thesis by simp
qed

text \<open>
  C4 (as the code has it). For every body run under \<open>get_cursor\<close> (a connection was
  obtained and its cursor opened): if the body returns, \<open>commit\<close> is the first call after
  it, and when no driver call of the exit path fails the scope returns the body's value
  without a rollback; if the body raises an exception derived from \<open>Exception\<close>,
  \<open>rollback\<close> is the first call after it, \<open>commit\<close> is not called, and an exception
  propagates (the body's own when no driver call fails); if the body raises any other
  exception, it propagates with neither \<open>commit\<close> nor \<open>rollback\<close> called. In every case
  the cursor's \<open>close\<close> and the pool's \<open>putconn\<close> are called.
\<close>

theorem get_cursor_commit_rollback_close:
  assumes acq: "acquire env self t = Inr conn"
    and cur: "raises env (t @ [GotConn conn]) (Cursor conn) = None"
    and body: "body conn (t @ [GotConn conn, Call (Cursor conn) None]) = (r, tb)"
    and run: "get_cursor env self body t = (r', t')"
  shows "\<exists>ex. t' = tb @ ex \<and> attempted (CloseCursor conn) ex \<and> attempted (PutConn conn) ex \<and>
     (case r of
        Returned v \<Rightarrow>
          (\<exists>res. hd ex = Call (Commit conn) res)
          \<and> (\<not> list_ex is_failure ex \<longrightarrow> r' = Returned v \<and> \<not> attempted (Rollback conn) ex)
      | Raised e \<Rightarrow>
          \<not> attempted (Commit conn) ex
          \<and> (\<exists>e'. r' = Raised e')
          \<and> (\<not> list_ex is_failure ex \<longrightarrow> r' = Raised e)
          \<and> (if is_Exception e then (\<exists>res. hd ex = Call (Rollback conn) res)
              else \<not> attempted (Rollback conn) ex))"
  using assms unfolding get_cursor_def get_connection_def rollback_and_reraise_def call_def attempted_def
  by (cases r) (auto simp: Let_def split: option.splits if_splits)

theorem get_cursor_commit_rollback_close_witness:
  "acquire quiet_driver ready_pool [] = Inr 7
   \<and> raises quiet_driver ([] @ [GotConn 7]) (Cursor 7) = None
   \<and> (\<exists>ex. snd (get_cursor quiet_driver ready_pool failing_body [])
               = [GotConn 7, Call (Cursor 7) None] @ ex
          \<and> attempted (CloseCursor 7) ex \<and> attempted (PutConn 7) ex
          \<and> \<not> attempted (Commit 7) ex
          \<and> (\<exists>res. hd ex = Call (Rollback 7) res))"
proof -
  have a: "acquire quiet_driver ready_pool [] = Inr 7"
    by (simp add: acquire_def quiet_driver_def ready_pool_def)
  have b: "raises quiet_driver ([] @ [GotConn 7]) (Cursor 7) = None"
    by (simp add: quiet_driver_def)
  have c: "failing_body 7 ([] @ [GotConn 7, Call (Cursor 7) None])
             = (Raised (Error ''ValueError''), [GotConn 7, Call (Cursor 7) None])"
    by (simp add: failing_body_def)
  have d: "get_cursor quiet_driver ready_pool failing_body []
             = (fst (get_cursor quiet_driver ready_pool failing_body []),
                snd (get_cursor quiet_driver ready_pool failing_body []))"
    by simp
  from get_cursor_commit_rollback_close[OF a b c d] a b show ?thesis by auto
qed

text \<open>
  C4 as stated fails for a body that raises \<open>KeyboardInterrupt\<close>: the exception
  propagates, the cursor is closed and the connection put back, but \<open>get_cursor\<close> makes
  no \<open>rollback\<close> call.
\<close>

theorem get_cursor_no_rollback_counterexample:
  "get_cursor quiet_driver ready_pool interrupted_body []
     = (Raised (BaseOnly ''KeyboardInterrupt''),
        [GotConn 7, Call (Cursor 7) None, Call (CloseCursor 7) None, Call (PutConn 7) None])
   \<and> \<not> attempted (Rollback 7)
         (snd (get_cursor quiet_driver ready_pool interrupted_body []))"
  by (simp add: get_cursor_def get_connection_def acquire_def call_def quiet_driver_def
        ready_pool_def interrupted_body_def attempted_def)

lemma constructions_after_first:
  "cls_instance c = Some self \<Longrightarrow>
   constructions connect n c = (replicate n (Returned self), c)"
  by (induction n) (simp_all add: DatabasePool_new_def)

lemma first_construction:
  "DatabasePool_new connect class_defined = (r, c) \<Longrightarrow>
   cls_instance c = Some 0 \<and> pools_created c = 1 \<and>
   r = (case connect 0 of None \<Rightarrow> Returned 0 | Some msg \<Rightarrow> Raised (Error msg)) \<and>
   objects c 0 = Some \<lparr>pool = (case connect 0 of None \<Rightarrow> Some 0 | Some msg \<Rightarrow> None)\<rparr>"
  by (auto simp: DatabasePool_new_def class_defined_def initialize_pool_def Let_def
           split: option.splits)

text \<open>
  C8. For any number of constructions \<open>DatabasePool()\<close> after the class is defined: the
  driver's pool is constructed at most once (exactly once when there is a construction,
  by the first one); any two constructions that return, return the same object; every
  construction after the first returns that object; and the first returns it unless the
  driver fails to make the pool, in which case it raises the driver's error.
\<close>

theorem database_pool_singleton:
  assumes "constructions connect n class_defined = (rs, c)"
  shows "pools_created c \<le> 1
       \<and> (\<forall>i < n. \<forall>j < n. \<forall>a b. rs ! i = Returned a \<and> rs ! j = Returned b \<longrightarrow> a = b)
       \<and> (\<forall>i < n. 0 < i \<longrightarrow> rs ! i = Returned 0)
       \<and> (0 < n \<longrightarrow> rs ! 0 = (case connect 0 of None \<Rightarrow> Returned 0 | Some msg \<Rightarrow> Raised (Error msg)))
       \<and> pools_created c = (if n = 0 then 0 else 1)"
proof (cases n)
  case 0
  with assms show ?thesis by (auto simp: class_defined_def)
next
  case (Suc k)
  obtain r c1 where f: "DatabasePool_new connect class_defined = (r, c1)"
    by (cases "DatabasePool_new connect class_defined")
  from first_construction[OF f] have i: "cls_instance c1 = Some 0" and p: "pools_created c1 = 1"
    and r: "r = (case connect 0 of None \<Rightarrow> Returned 0 | Some msg \<Rightarrow> Raised (Error msg))"
    by simp_all
  from assms Suc f constructions_after_first[OF i, of connect k]
  have rs: "rs = r # replicate k (Returned 0)" and c: "c = c1"
    by (simp_all add: Let_def)
  have later: "rs ! i = Returned 0" if "i < n" "0 < i" for i
    using that rs Suc by (cases i) simp_all
  have same: "a = b" if "i < n" "j < n" "rs ! i = Returned a" "rs ! j = Returned b" for i j a b
  proof -
    have "a = 0" if "i < n" "rs ! i = Returned a" for i a
    proof (cases i)
      case 0
      with that rs r show ?thesis by (auto split: option.splits)
    next
      case (Suc i')
      with later[of i] that show ?thesis by simp
    qed
    from this[OF that(1,3)] this[OF that(2,4)] show ?thesis by simp
  qed
  from later same rs r p c Suc show ?thesis by auto
qed


theorem database_pool_singleton_witness:
  "fst (constructions (\<lambda>n. None) 3 class_defined) ! 2 = Returned 0
   \<and> fst (constructions (\<lambda>n. None) 3 class_defined) ! 0 = Returned 0
   \<and> pools_created (snd (constructions (\<lambda>n. None) 3 class_defined)) = 1"
proof -
  have c: "constructions (\<lambda>n. None) 3 class_defined
             = (fst (constructions (\<lambda>n. None) 3 class_defined),
                snd (constructions (\<lambda>n. None) 3 class_defined))"
    by simp
  from database_pool_singleton[OF c] show ?thesis by simp
qed

section \<open>Facts about the activity logger\<close>

lemma log_event_try_raises_Exception:
  "log_event_try env self ev descr usr dets now rows = (Raised e, rows') \<Longrightarrow> is_Exception e"
  by (auto simp: log_event_try_def json_dumps_def Let_def
           split: option.splits if_splits outcome.splits prod.splits)

lemma log_event_try_True:
  "log_event_try env self ev descr usr dets now rows = (Returned True, rows') \<Longrightarrow>
   rows' = rows @ [log_entry_of ev descr usr dets now]"
  by (auto simp: log_event_try_def json_dumps_def log_entry_of_def Let_def
           split: option.splits if_splits outcome.splits prod.splits)

lemma log_event_try_uninitialized:
  "Session self = None \<Longrightarrow>
   log_event_try env self ev descr usr dets now rows = (Returned False, rows)"
  by (simp add: log_event_try_def)

lemma log_event_try_succeeds:
  "Session self \<noteq> None \<Longrightarrow> serializable dets \<Longrightarrow> \<forall>c rs. orm_raises env c rs = None \<Longrightarrow>
   log_event_try env self ev descr usr dets now rows =
     (Returned True, rows @ [log_entry_of ev descr usr dets now])"
  by (auto simp: log_event_try_def json_dumps_def serializable_def log_entry_of_def Let_def
           split: option.splits)

lemma log_event_result:
  "\<exists>b rows'. log_event env self ev descr usr dets now rows = (Returned b, rows')
     \<and> (b \<longrightarrow> rows' = rows @ [log_entry_of ev descr usr dets now])
     \<and> (Session self = None \<longrightarrow> \<not> b \<and> rows' = rows)
     \<and> (Session self \<noteq> None \<and> serializable dets \<and> (\<forall>c rs. orm_raises env c rs = None) \<longrightarrow> b)"
proof (cases "log_event_try env self ev descr usr dets now rows")
  case (Pair r rows')
  have ok: "r = Returned True"
    if "Session self \<noteq> None" "serializable dets" "\<forall>c rs. orm_raises env c rs = None"
    using log_event_try_succeeds[OF that, of ev descr usr now rows] Pair by simp
  have un: "r = Returned False \<and> rows' = rows" if "Session self = None"
    using log_event_try_uninitialized[OF that, of env ev descr usr dets now rows] Pair by simp
  show ?thesis
  proof (cases r)
    case (Returned b)
    with Pair have l: "log_event env self ev descr usr dets now rows = (Returned b, rows')"
      by (simp add: log_event_def)
    have "rows' = rows @ [log_entry_of ev descr usr dets now]" if b
      using that Pair Returned log_event_try_True by simp
    with l ok un Returned show ?thesis
      by - (rule exI[of _ b], rule exI[of _ rows'], simp)
  next
    case (Raised e)
    with Pair log_event_try_raises_Exception have "is_Exception e" by blast
    with Pair Raised have l: "log_event env self ev descr usr dets now rows = (Returned False, rows')"
      by (simp add: log_event_def)
    moreover from ok Raised
    have "\<not> (Session self \<noteq> None \<and> serializable dets \<and> (\<forall>c rs. orm_raises env c rs = None))"
      by blast
    moreover from un Raised have "Session self \<noteq> None" by blast
    ultimately show ?thesis
      by - (rule exI[of _ False], rule exI[of _ rows'], auto)
  qed
qed

text \<open>
  C6. Each of \<open>log_event\<close>, \<open>log_file_upload\<close> and \<open>log_file_processing\<close> never
  raises: for every logger, every argument and every behaviour of the object-relational
  mapper it returns a truth value. When it returns true the entry built from its arguments
  has been appended to \<open>system_logs\<close>; with an uninitialized session it returns false and
  writes nothing; and it records the event and returns true when the session is
  initialized, the details are serializable (those of \<open>log_file_processing\<close> always
  are) and no call of the mapper fails.
\<close>

theorem logging_never_raises:
  "(\<exists>b rows'. log_event env self ev descr usr dets now rows = (Returned b, rows')
      \<and> (b \<longrightarrow> rows' = rows @ [log_entry_of ev descr usr dets now])
      \<and> (Session self = None \<longrightarrow> \<not> b \<and> rows' = rows)
      \<and> (Session self \<noteq> None \<and> serializable dets \<and> (\<forall>c rs. orm_raises env c rs = None)
           \<longrightarrow> b))
   \<and> (\<exists>b rows'. log_file_upload env self filename ftype usr stat dets now rows = (Returned b, rows')
      \<and> (b \<longrightarrow> rows' = rows @ [log_entry_of ''FILE_UPLOAD''
             (''File upload: '' @ filename @ '' ('' @ ftype @ '') - '' @ stat) usr dets now])
      \<and> (Session self = None \<longrightarrow> \<not> b \<and> rows' = rows)
      \<and> (Session self \<noteq> None \<and> serializable dets \<and> (\<forall>c rs. orm_raises env c rs = None)
           \<longrightarrow> b))
   \<and> (\<exists>b rows'. log_file_processing env self filename p s f usr now rows = (Returned b, rows')
      \<and> (b \<longrightarrow> rows' = rows @ [log_entry_of ''FILE_PROCESSING'' (''File processed: '' @ filename) usr
             (Some [(''records_processed'', PyInt p), (''records_success'', PyInt s),
                    (''records_failed'', PyInt f)]) now])
      \<and> (Session self = None \<longrightarrow> \<not> b \<and> rows' = rows)
      \<and> (Session self \<noteq> None \<and> (\<forall>c rs. orm_raises env c rs = None) \<longrightarrow> b))"
proof (intro conjI)
  show "\<exists>b rows'. log_event env self ev descr usr dets now rows = (Returned b, rows')
      \<and> (b \<longrightarrow> rows' = rows @ [log_entry_of ev descr usr dets now])
      \<and> (Session self = None \<longrightarrow> \<not> b \<and> rows' = rows)
      \<and> (Session self \<noteq> None \<and> serializable dets \<and> (\<forall>c rs. orm_raises env c rs = None)
           \<longrightarrow> b)"
    by (rule log_event_result)
next
  from log_event_result[of env self "''FILE_UPLOAD''"
      "''File upload: '' @ filename @ '' ('' @ ftype @ '') - '' @ stat" usr dets now rows]
  show "\<exists>b rows'. log_file_upload env self filename ftype usr stat dets now rows = (Returned b, rows')
      \<and> (b \<longrightarrow> rows' = rows @ [log_entry_of ''FILE_UPLOAD''
             (''File upload: '' @ filename @ '' ('' @ ftype @ '') - '' @ stat) usr dets now])
      \<and> (Session self = None \<longrightarrow> \<not> b \<and> rows' = rows)
      \<and> (Session self \<noteq> None \<and> serializable dets \<and> (\<forall>c rs. orm_raises env c rs = None)
           \<longrightarrow> b)"
    unfolding log_file_upload_def by (elim exE conjE) (intro exI conjI, assumption+)
next
  have ser: "serializable (Some [(''records_processed'', PyInt p), (''records_success'', PyInt s),
             (''records_failed'', PyInt f)])"
    by (simp add: serializable_def)
  from log_event_result[of env self "''FILE_PROCESSING''" "''File processed: '' @ filename" usr
      "Some [(''records_processed'', PyInt p), (''records_success'', PyInt s),
             (''records_failed'', PyInt f)]" now rows]
  obtain b rows' where
    l: "log_event env self ''FILE_PROCESSING'' (''File processed: '' @ filename) usr
          (Some [(''records_processed'', PyInt p), (''records_success'', PyInt s),
                 (''records_failed'', PyInt f)]) now rows = (Returned b, rows')"
    and t: "b \<longrightarrow> rows' = rows @ [log_entry_of ''FILE_PROCESSING'' (''File processed: '' @ filename) usr
             (Some [(''records_processed'', PyInt p), (''records_success'', PyInt s),
                    (''records_failed'', PyInt f)]) now]"
    and n: "Session self = None \<longrightarrow> \<not> b \<and> rows' = rows"
    and g: "Session self \<noteq> None
              \<and> serializable (Some [(''records_processed'', PyInt p), (''records_success'', PyInt s),
                                     (''records_failed'', PyInt f)])
              \<and> (\<forall>c rs. orm_raises env c rs = None) \<longrightarrow> b"
    by (elim exE conjE)
  from g ser have g': "Session self \<noteq> None \<and> (\<forall>c rs. orm_raises env c rs = None) \<longrightarrow> b"
    by blast
  from l t n g'
  show "\<exists>b rows'. log_file_processing env self filename p s f usr now rows = (Returned b, rows')
      \<and> (b \<longrightarrow> rows' = rows @ [log_entry_of ''FILE_PROCESSING'' (''File processed: '' @ filename) usr
             (Some [(''records_processed'', PyInt p), (''records_success'', PyInt s),
                    (''records_failed'', PyInt f)]) now])
      \<and> (Session self = None \<longrightarrow> \<not> b \<and> rows' = rows)
      \<and> (Session self \<noteq> None \<and> (\<forall>c rs. orm_raises env c rs = None) \<longrightarrow> b)"
    unfolding log_file_processing_def by (intro exI conjI)
qed

theorem logging_never_raises_witness:
  "log_event quiet_orm broken_logger ''QUERY'' ''select'' None None 0 [] = (Returned False, [])
   \<and> log_event quiet_orm ready_logger ''QUERY'' ''select'' None None 0 []
       = (Returned True, [log_entry_of ''QUERY'' ''select'' None None 0])
   \<and> log_file_upload quiet_orm ready_logger ''emp.csv'' ''employee'' (Some ''hr'') ''SUCCESS'' None 3 []
       = (Returned True,
          [log_entry_of ''FILE_UPLOAD'' ''File upload: emp.csv (employee) - SUCCESS''
             (Some ''hr'') None 3])
   \<and> log_file_upload quiet_orm broken_logger ''emp.csv'' ''employee'' (Some ''hr'') ''SUCCESS'' None 3 []
       = (Returned False, [])
   \<and> log_file_processing quiet_orm ready_logger ''emp.csv'' 5 4 1 (Some ''hr'') 4 []
       = (Returned True,
          [log_entry_of ''FILE_PROCESSING'' ''File processed: emp.csv'' (Some ''hr'')
             (Some [(''records_processed'', PyInt 5), (''records_success'', PyInt 4),
                    (''records_failed'', PyInt 1)]) 4])
   \<and> log_file_processing quiet_orm broken_logger ''emp.csv'' 5 4 1 (Some ''hr'') 4 []
       = (Returned False, [])"
proof -
  have broken: "Session broken_logger = None" by (simp add: broken_logger_def)
  have ready: "Session ready_logger \<noteq> None" by (simp add: ready_logger_def)
  have quiet: "\<forall>c rs. orm_raises quiet_orm c rs = None" by (simp add: quiet_orm_def)
  have ser: "serializable None" by (simp add: serializable_def)
  from logging_never_raises[where env = quiet_orm and self = broken_logger and ev = "''QUERY''"
      and descr = "''select''" and usr = None and dets = None and now = 0 and rows = "[]",
      THEN conjunct1]
  obtain b rows' where
    "log_event quiet_orm broken_logger ''QUERY'' ''select'' None None 0 [] = (Returned b, rows')"
    "Session broken_logger = None \<longrightarrow> \<not> b \<and> rows' = []"
    by (elim exE conjE)
  with broken have a: "log_event quiet_orm broken_logger ''QUERY'' ''select'' None None 0 []
                         = (Returned False, [])"
    by simp
  from logging_never_raises[where env = quiet_orm and self = broken_logger
      and filename = "''emp.csv''" and ftype = "''employee''" and usr = "Some ''hr''"
      and stat = "''SUCCESS''" and dets = None and now = 3 and rows = "[]",
      THEN conjunct2, THEN conjunct1]
  obtain b rows' where
    "log_file_upload quiet_orm broken_logger ''emp.csv'' ''employee'' (Some ''hr'')
        ''SUCCESS'' None 3 [] = (Returned b, rows')"
    "Session broken_logger = None \<longrightarrow> \<not> b \<and> rows' = []"
    by (elim exE conjE)
  with broken have b: "log_file_upload quiet_orm broken_logger ''emp.csv'' ''employee'' (Some ''hr'')
                         ''SUCCESS'' None 3 [] = (Returned False, [])"
    by simp
  from logging_never_raises[where env = quiet_orm and self = broken_logger
      and filename = "''emp.csv''" and p = 5 and s = 4 and f = 1 and usr = "Some ''hr''"
      and now = 4 and rows = "[]", THEN conjunct2, THEN conjunct2]
  obtain b rows' where
    "log_file_processing quiet_orm broken_logger ''emp.csv'' 5 4 1 (Some ''hr'') 4 []
        = (Returned b, rows')"
    "Session broken_logger = None \<longrightarrow> \<not> b \<and> rows' = []"
    by (elim exE conjE)
  with broken have c: "log_file_processing quiet_orm broken_logger ''emp.csv'' 5 4 1 (Some ''hr'') 4 []
                         = (Returned False, [])"
    by simp
  from logging_never_raises[where env = quiet_orm and self = ready_logger and ev = "''QUERY''"
      and descr = "''select''" and usr = None and dets = None and now = 0 and rows = "[]",
      THEN conjunct1]
  obtain b rows' where
    "log_event quiet_orm ready_logger ''QUERY'' ''select'' None None 0 [] = (Returned b, rows')"
    "b \<longrightarrow> rows' = [] @ [log_entry_of ''QUERY'' ''select'' None None 0]"
    "Session ready_logger \<noteq> None \<and> serializable None
       \<and> (\<forall>c rs. orm_raises quiet_orm c rs = None) \<longrightarrow> b"
    by (elim exE conjE)
  with ready ser quiet have d: "log_event quiet_orm ready_logger ''QUERY'' ''select'' None None 0 []
                           = (Returned True, [log_entry_of ''QUERY'' ''select'' None None 0])"
    by simp
  from logging_never_raises[where env = quiet_orm and self = ready_logger
      and filename = "''emp.csv''" and ftype = "''employee''" and usr = "Some ''hr''"
      and stat = "''SUCCESS''" and dets = None and now = 3 and rows = "[]",
      THEN conjunct2, THEN conjunct1]
  obtain b rows' where
    "log_file_upload quiet_orm ready_logger ''emp.csv'' ''employee'' (Some ''hr'')
        ''SUCCESS'' None 3 [] = (Returned b, rows')"
    "b \<longrightarrow> rows' = [] @ [log_entry_of ''FILE_UPLOAD''
             (''File upload: '' @ ''emp.csv'' @ '' ('' @ ''employee'' @ '') - '' @ ''SUCCESS'')
             (Some ''hr'') None 3]"
    "Session ready_logger \<noteq> None \<and> serializable None
       \<and> (\<forall>c rs. orm_raises quiet_orm c rs = None) \<longrightarrow> b"
    by (elim exE conjE)
  with ready ser quiet have e: "log_file_upload quiet_orm ready_logger ''emp.csv'' ''employee'' (Some ''hr'')
                           ''SUCCESS'' None 3 []
                           = (Returned True,
                              [log_entry_of ''FILE_UPLOAD'' ''File upload: emp.csv (employee) - SUCCESS''
                                 (Some ''hr'') None 3])"
    by simp
  from logging_never_raises[where env = quiet_orm and self = ready_logger
      and filename = "''emp.csv''" and p = 5 and s = 4 and f = 1 and usr = "Some ''hr''"
      and now = 4 and rows = "[]", THEN conjunct2, THEN conjunct2]
  obtain b rows' where
    "log_file_processing quiet_orm ready_logger ''emp.csv'' 5 4 1 (Some ''hr'') 4 []
        = (Returned b, rows')"
    "b \<longrightarrow> rows' = [] @ [log_entry_of ''FILE_PROCESSING'' (''File processed: '' @ ''emp.csv'')
             (Some ''hr'')
             (Some [(''records_processed'', PyInt 5), (''records_success'', PyInt 4),
                    (''records_failed'', PyInt 1)]) 4]"
    "Session ready_logger \<noteq> None \<and> (\<forall>c rs. orm_raises quiet_orm c rs = None) \<longrightarrow> b"
    by (elim exE conjE)
  with ready quiet have f: "log_file_processing quiet_orm ready_logger ''emp.csv'' 5 4 1 (Some ''hr'') 4 []
                           = (Returned True,
                              [log_entry_of ''FILE_PROCESSING'' ''File processed: emp.csv'' (Some ''hr'')
                                 (Some [(''records_processed'', PyInt 5), (''records_success'', PyInt 4),
                                        (''records_failed'', PyInt 1)]) 4])"
    by simp
  from a b c d e f show ?thesis by (intro conjI)
qed

lemma get_logger_calls_after_first:
  "activity_logger_global m = Some ref \<Longrightarrow>
   get_logger_calls env args m = (replicate (length args) ref, m)"
  by (induction args) (simp_all add: get_logger_def)

text \<open>
  C10. For any sequence of calls of \<open>get_logger\<close> after the module is loaded, with any
  engine arguments: every call returns the same object, the one the first call constructed
  from its own engine argument; the engine arguments of the later calls play no part.
\<close>

theorem get_logger_memoizes:
  assumes "get_logger_calls env (first_arg # later_args) module_loaded = (rs, m)"
  shows "rs = replicate (Suc (length later_args)) 0
       \<and> activity_logger_global m = Some 0
       \<and> loggers m 0 = Some (ActivityLogger_init env first_arg)"
proof -
  obtain r m1 where f: "get_logger env first_arg module_loaded = (r, m1)"
    by (cases "get_logger env first_arg module_loaded")
  then have r: "r = 0" and g: "activity_logger_global m1 = Some 0"
    and l: "loggers m1 0 = Some (ActivityLogger_init env first_arg)"
    by (auto simp: get_logger_def module_loaded_def Let_def)
  from assms f get_logger_calls_after_first[OF g, of env later_args]
  have "rs = r # replicate (length later_args) 0" "m = m1"
    by (simp_all add: Let_def)
  with r g l show ?thesis by simp
qed


theorem get_logger_memoizes_witness:
  "fst (get_logger_calls quiet_orm [Some 5, None, Some 9] module_loaded) = [0, 0, 0]
   \<and> loggers (snd (get_logger_calls quiet_orm [Some 5, None, Some 9] module_loaded)) 0
       = Some \<lparr>engine = Some 5, Session = Some 5\<rparr>"
proof -
  have c: "get_logger_calls quiet_orm (Some 5 # [None, Some 9]) module_loaded
             = (fst (get_logger_calls quiet_orm [Some 5, None, Some 9] module_loaded),
                snd (get_logger_calls quiet_orm [Some 5, None, Some 9] module_loaded))"
    by simp
  from get_logger_memoizes[OF c] show ?thesis
    by (simp add: ActivityLogger_init_def quiet_orm_def)
qed

section \<open>Facts about the run ledger\<close>

lemma ledger_row_counts: "counts_add_up (ledger_row uid ftype now res)"
proof (cases res)
  case Malformed
  then show ?thesis by (simp add: counts_add_up_def)
next
  case (Processed rows)
  have "length rows = length (filter (\<lambda>r. r = Loaded) rows) + length (filter (\<lambda>r. r \<noteq> Loaded) rows)"
    by (rule sum_length_filter_compl[symmetric])
  with Processed show ?thesis by (simp add: counts_add_up_def)
next
  case (TransactionFailed rows)
  then show ?thesis by (simp add: counts_add_up_def)
qed

lemma write_ledger_counts:
  "list_all counts_add_up ledger \<Longrightarrow> list_all counts_add_up (write_ledger clock batch ledger)"
proof (induction batch arbitrary: ledger)
  case Nil
  then show ?case by simp
next
  case (Cons fr batch)
  obtain ftype res where fr: "fr = (ftype, res)" by (cases fr)
  from Cons.prems ledger_row_counts[of "length ledger" ftype "clock (length ledger)" res]
  have "list_all counts_add_up
          (ledger @ [ledger_row (length ledger) ftype (clock (length ledger)) res])"
    by simp
  from Cons.IH[OF this] fr show ?case by simp
qed

text \<open>
  C3. Every row the ledger writes satisfies
  \<open>records_processed = records_success + records_failed\<close>: whatever the batch, if the rows
  already in the ledger satisfy the equation then so do all rows after the batch is
  recorded; in particular every row of a ledger built from the empty one does.
\<close>

theorem upload_log_counts_add_up:
  "(list_all counts_add_up ledger \<longrightarrow> list_all counts_add_up (write_ledger clock batch ledger))
   \<and> (\<forall>row \<in> set (write_ledger clock batch []).
         records_processed row = records_success row + records_failed row)"
proof -
  have "list_all counts_add_up (write_ledger clock batch [])"
    by (rule write_ledger_counts) simp
  then have "\<forall>row \<in> set (write_ledger clock batch []).
         records_processed row = records_success row + records_failed row"
    by (simp add: list_all_iff counts_add_up_def)
  with write_ledger_counts show ?thesis by blast
qed

theorem upload_log_counts_add_up_witness:
  "map (\<lambda>row. (records_processed row, records_success row, records_failed row))
     (write_ledger (\<lambda>n. n) [(''employee'', Processed [Loaded, Rejected 2, Loaded, Skipped]),
                    (''timesheet'', Malformed),
                    (''project'', TransactionFailed [Loaded, Loaded])] [])
     = [(4, 2, 2), (0, 0, 0), (2, 0, 2)]
   \<and> list_all counts_add_up
       (write_ledger (\<lambda>n. n) [(''employee'', Processed [Loaded, Rejected 2, Loaded, Skipped]),
                      (''timesheet'', Malformed),
                      (''project'', TransactionFailed [Loaded, Loaded])] [])"
proof -
  have "list_all counts_add_up []" by simp
  with upload_log_counts_add_up[of "[]" "\<lambda>n. n"
      "[(''employee'', Processed [Loaded, Rejected 2, Loaded, Skipped]),
        (''timesheet'', Malformed),
        (''project'', TransactionFailed [Loaded, Loaded])]"]
  have "list_all counts_add_up
       (write_ledger (\<lambda>n. n) [(''employee'', Processed [Loaded, Rejected 2, Loaded, Skipped]),
                      (''timesheet'', Malformed),
                      (''project'', TransactionFailed [Loaded, Loaded])] [])"
    by blast
  then show ?thesis by simp
qed

end
